(* ===== verification/Prelude.thy ===== *)
theory Prelude
  imports Main
begin

text \<open>
  Shared vocabulary of the event-bus development. The C++ code never reports an
  error through a return value, but two of its executions have no defined result:
  iterating a \<^verbatim>\<open>std::vector\<close> whose iterators a callback has invalidated (undefined
  behaviour by the C++ standard), and re-entrant callbacks that recurse without
  bound (the call stack is exhausted); and one member template cannot be
  instantiated at all, so a call of it has no execution (\<open>IllFormed\<close>). All three
  are values of \<open>bus_error\<close>, and a
  computation of the model returns \<open>bus_error + 'a\<close>; \<open>bindE\<close> sequences such
  computations the way the C++ statements follow each other, stopping at the first
  error. The theory also holds the collection \<open>bind_simps\<close> of rewrite rules for
  \<open>bindE\<close> and generic list lemmas the component theories share.
\<close>

datatype bus_error =
    IteratorInvalidated  \<comment> \<open>a range-for loop read through an invalidated iterator\<close>
  | StackExhausted       \<comment> \<open>the nesting of calls exceeded the fuel (stack) bound\<close>
  | IllFormed            \<comment> \<open>the call cannot be instantiated: the compiler rejects it\<close>

type_synonym 'a result = "bus_error + 'a"

named_theorems bind_simps "rewrite rules for sequencing of results"
named_theorems eval_simps "definitions unfolded to evaluate the model on concrete states"

definition bindE :: "'a result \<Rightarrow> ('a \<Rightarrow> 'b result) \<Rightarrow> 'b result" where
  "bindE m g = (case m of Inl e \<Rightarrow> Inl e | Inr x \<Rightarrow> g x)"

lemma bindE_Inl [simp, bind_simps]: "bindE (Inl e) g = Inl e"
  by (simp add: bindE_def)

lemma bindE_Inr [simp, bind_simps]: "bindE (Inr x) g = g x"
  by (simp add: bindE_def)

lemma bindE_Inr_right [simp, bind_simps]: "bindE m Inr = m"
  by (cases m) simp_all

lemma bindE_eq_Inr [bind_simps]:
  "bindE m g = Inr y \<longleftrightarrow> (\<exists>x. m = Inr x \<and> g x = Inr y)"
  by (cases m) simp_all

lemma bindE_eq_Inl [bind_simps]:
  "bindE m g = Inl e \<longleftrightarrow> m = Inl e \<or> (\<exists>x. m = Inr x \<and> g x = Inl e)"
  by (cases m) simp_all

lemma bindE_assoc [bind_simps]:
  "bindE (bindE m g) k = bindE m (\<lambda>x. bindE (g x) k)"
  by (cases m) simp_all

text \<open>
  The congruence rule tells the function package that the continuation of
  \<open>bindE\<close> only runs on the value the first computation returned; it is what
  lets recursive calls sit under \<open>bindE\<close>.
\<close>

lemma bindE_cong [fundef_cong]:
  "m = m' \<Longrightarrow> (\<And>x. m' = Inr x \<Longrightarrow> g x = g' x) \<Longrightarrow> bindE m g = bindE m' g'"
  by (cases m') simp_all

text \<open>
  More fuel never changes a result other than \<open>StackExhausted\<close>: the step of that
  argument for a sequence, used for every function that sequences with \<open>bindE\<close>.
\<close>

lemma bindE_mono:
  assumes "bindE m g \<noteq> Inl StackExhausted"
    and "m \<noteq> Inl StackExhausted \<Longrightarrow> m' = m"
    and "\<And>x. m = Inr x \<Longrightarrow> g x \<noteq> Inl StackExhausted \<Longrightarrow> g' x = g x"
  shows "bindE m' g' = bindE m g"
  using assms by (cases m) auto

subsection \<open>Lists\<close>

lemma nth_take_append_replicate:
  "i < n \<Longrightarrow> (take n xs @ replicate (n - length xs) d) ! i =
     (if i < length xs then xs ! i else d)"
  by (auto simp: nth_append min_def)

lemma take_map_drop_step:
  "j < length xs \<Longrightarrow>
   take (Suc j) (xs[j := g (xs ! j)]) @ map g (drop (Suc j) xs) = take j xs @ map g (drop j xs)"
  by (simp add: take_Suc_conv_app_nth take_update_cancel Cons_nth_drop_Suc [symmetric])

lemma length_take_append_replicate [simp]:
  "length (take n xs @ replicate (n - length xs) d) = n"
  by (simp add: min_def)

end
