(* ===== verification/Registry.thy ===== *)
theory Registry
  imports Prelude
begin

text \<open>
  The event-type registry of \<^verbatim>\<open>src/event bus/EventBus.hpp\<close>, lines 8--19:
  \<^verbatim>\<open>GetUniqueEventId\<close> post-increments a function-local static counter, and each
  instantiation \<^verbatim>\<open>GetEventId<Event>\<close> initialises its own function-local static
  \<^verbatim>\<open>eventID\<close> from it on first call. The model keeps the counter and the list of
  the static ids initialised so far, in order of initialisation, as an association
  list from event types to ids (\<open>'ty\<close> stands for the C++ event types). The lemmas
  show that the ids are stable, dense from 0 and distinct for distinct types.
  The counter is a C++ \<^verbatim>\<open>int\<close>; it would overflow after \<open>2^31\<close> distinct event
  types, which a program cannot instantiate, so it is a \<open>nat\<close> here; theory
  \<open>Counter32\<close> models it at 32 bits and shows this registry exact up to the overflow.
\<close>

record 'ty registry =
  static_ids :: "('ty \<times> nat) list"
  unique_id :: nat

definition registry_init :: "'ty registry" where
  "registry_init = \<lparr>static_ids = [], unique_id = 0\<rparr>"

definition get_unique_event_id :: "'ty registry \<Rightarrow> nat \<times> 'ty registry" where
  "get_unique_event_id r = (unique_id r, r\<lparr>unique_id := Suc (unique_id r)\<rparr>)"

definition get_event_id :: "'ty \<Rightarrow> 'ty registry \<Rightarrow> nat \<times> 'ty registry" where
  "get_event_id ty r =
     (case map_of (static_ids r) ty of
        Some i \<Rightarrow> (i, r)
      | None \<Rightarrow> (let (i, r') = get_unique_event_id r
                 in (i, r'\<lparr>static_ids := static_ids r' @ [(ty, i)]\<rparr>)))"

declare registry_init_def [eval_simps] get_unique_event_id_def [eval_simps]
  get_event_id_def [eval_simps]

text \<open>
  Well-formedness: the static ids were drawn from the counter in order, so they are
  exactly \<open>0, 1, \<dots>\<close> up to the counter, and each type was initialised once.
\<close>

definition registry_wf :: "'ty registry \<Rightarrow> bool" where
  "registry_wf r \<longleftrightarrow>
     map snd (static_ids r) = [0..<unique_id r] \<and> distinct (map fst (static_ids r))"

lemma registry_wf_init: "registry_wf registry_init"
  by (simp add: registry_wf_def registry_init_def)

lemma get_event_id_known:
  "map_of (static_ids r) ty = Some i \<Longrightarrow> get_event_id ty r = (i, r)"
  by (simp add: get_event_id_def)

lemma get_event_id_fresh:
  "map_of (static_ids r) ty = None \<Longrightarrow>
   get_event_id ty r = (unique_id r,
     r\<lparr>unique_id := Suc (unique_id r), static_ids := static_ids r @ [(ty, unique_id r)]\<rparr>)"
  by (simp add: get_event_id_def get_unique_event_id_def)

lemma get_event_id_map_of:
  "get_event_id ty r = (i, r') \<Longrightarrow> map_of (static_ids r') ty = Some i"
  by (cases "map_of (static_ids r) ty")
    (auto simp: get_event_id_known get_event_id_fresh map_of_append map_add_def)

lemma get_event_id_extends:
  "get_event_id ty r = (i, r') \<Longrightarrow> \<exists>ext. static_ids r' = static_ids r @ ext"
  by (cases "map_of (static_ids r) ty") (auto simp: get_event_id_known get_event_id_fresh)

lemma get_event_id_keeps:
  assumes "get_event_id ty r = (i, r')" and "map_of (static_ids r) ty' = Some j"
  shows "map_of (static_ids r') ty' = Some j"
proof -
  from assms(1) obtain ext where "static_ids r' = static_ids r @ ext" by (blast dest: get_event_id_extends)
  with assms(2) show ?thesis by (simp add: map_of_append map_add_def)
qed

lemma get_event_id_counter_mono:
  "get_event_id ty r = (i, r') \<Longrightarrow> unique_id r \<le> unique_id r'"
  by (cases "map_of (static_ids r) ty") (auto simp: get_event_id_known get_event_id_fresh)

lemma registry_wf_map_of_bound:
  "registry_wf r \<Longrightarrow> map_of (static_ids r) ty = Some i \<Longrightarrow> i < unique_id r"
proof -
  assume wf: "registry_wf r" and look: "map_of (static_ids r) ty = Some i"
  from look have "(ty, i) \<in> set (static_ids r)" by (rule map_of_SomeD)
  then have "i \<in> set (map snd (static_ids r))" by force
  with wf show "i < unique_id r" by (simp add: registry_wf_def)
qed

lemma registry_wf_fresh_type:
  "registry_wf r \<Longrightarrow> map_of (static_ids r) ty = None \<Longrightarrow>
   registry_wf (r\<lparr>unique_id := Suc (unique_id r), static_ids := static_ids r @ [(ty, unique_id r)]\<rparr>)"
  by (auto simp: registry_wf_def map_of_eq_None_iff)

lemma get_event_id_wf:
  "registry_wf r \<Longrightarrow> get_event_id ty r = (i, r') \<Longrightarrow> registry_wf r'"
  by (cases "map_of (static_ids r) ty")
    (auto simp: get_event_id_known get_event_id_fresh registry_wf_fresh_type)

lemma get_event_id_bound:
  "registry_wf r \<Longrightarrow> get_event_id ty r = (i, r') \<Longrightarrow> i < unique_id r'"
  by (metis get_event_id_map_of get_event_id_wf registry_wf_map_of_bound)

text \<open>Two types with the same id in a well-formed registry are the same type.\<close>

lemma registry_wf_map_of_inj:
  assumes wf: "registry_wf r"
    and a: "map_of (static_ids r) ty1 = Some i" and b: "map_of (static_ids r) ty2 = Some i"
  shows "ty1 = ty2"
proof -
  from wf have ds: "distinct (map snd (static_ids r))" by (simp add: registry_wf_def)
  from a b have "(ty1, i) \<in> set (static_ids r)" "(ty2, i) \<in> set (static_ids r)"
    by (auto dest: map_of_SomeD)
  with ds show ?thesis
    by (metis distinct_map inj_onD prod.inject snd_conv)
qed

end
