(* ===== verification/Vector.thy ===== *)
theory Vector
  imports Prelude
begin

text \<open>
  The part of \<^verbatim>\<open>std::vector\<close> the event bus relies on. The bus keeps two kinds of
  vectors: \<^verbatim>\<open>mEventPools\<close> (a vector of pool pointers) and each pool's
  \<^verbatim>\<open>mEventQueue\<close>, and it iterates both with range-for loops while callbacks run.
  The C++ standard says which member functions invalidate iterators: \<^verbatim>\<open>push_back\<close>
  and \<^verbatim>\<open>emplace_back\<close> invalidate at least the past-the-end iterator, \<^verbatim>\<open>clear\<close>
  invalidates every iterator, a \<^verbatim>\<open>resize\<close> that changes the size invalidates at least
  the past-the-end iterator, and assigning to an element invalidates nothing. A vector
  is modelled by its elements and a generation counter \<open>vgen\<close> that every
  invalidating operation increments; a loop that cached its iterators at generation
  \<open>g\<close> may only use them while the vector is still at generation \<open>g\<close>. This is a
  library model (the standard's contract), not code of the repository.
\<close>

record 'a vec =
  velems :: "'a list"
  vgen :: nat

definition vec_empty :: "'a vec" where
  "vec_empty = \<lparr>velems = [], vgen = 0\<rparr>"

definition push_back :: "'a \<Rightarrow> 'a vec \<Rightarrow> 'a vec" where
  "push_back x v = v\<lparr>velems := velems v @ [x], vgen := Suc (vgen v)\<rparr>"

definition vec_clear :: "'a vec \<Rightarrow> 'a vec" where
  "vec_clear v = v\<lparr>velems := [], vgen := Suc (vgen v)\<rparr>"

definition vec_resize :: "nat \<Rightarrow> 'a \<Rightarrow> 'a vec \<Rightarrow> 'a vec" where
  "vec_resize n d v =
     (if n = length (velems v) then v
      else v\<lparr>velems := take n (velems v) @ replicate (n - length (velems v)) d,
             vgen := Suc (vgen v)\<rparr>)"

definition vec_set :: "nat \<Rightarrow> 'a \<Rightarrow> 'a vec \<Rightarrow> 'a vec" where
  "vec_set i x v = v\<lparr>velems := (velems v)[i := x]\<rparr>"

definition vec_map :: "('a \<Rightarrow> 'a) \<Rightarrow> 'a vec \<Rightarrow> 'a vec" where
  "vec_map f v = v\<lparr>velems := map f (velems v)\<rparr>"

named_theorems vec_simps "equations of the vector operations"

declare vec_empty_def [vec_simps, eval_simps] push_back_def [vec_simps, eval_simps]
  vec_clear_def [vec_simps, eval_simps] vec_resize_def [vec_simps, eval_simps]
  vec_set_def [vec_simps, eval_simps] vec_map_def [vec_simps, eval_simps]

lemma length_push_back [simp]: "length (velems (push_back x v)) = Suc (length (velems v))"
  by (simp add: push_back_def)

lemma velems_push_back [simp]: "velems (push_back x v) = velems v @ [x]"
  by (simp add: push_back_def)

lemma vgen_push_back [simp]: "vgen (push_back x v) = Suc (vgen v)"
  by (simp add: push_back_def)

lemma velems_vec_clear [simp]: "velems (vec_clear v) = []"
  by (simp add: vec_clear_def)

lemma vgen_vec_clear [simp]: "vgen (vec_clear v) = Suc (vgen v)"
  by (simp add: vec_clear_def)

lemma velems_vec_set [simp]: "velems (vec_set i x v) = (velems v)[i := x]"
  by (simp add: vec_set_def)

lemma vgen_vec_set [simp]: "vgen (vec_set i x v) = vgen v"
  by (simp add: vec_set_def)

lemma velems_vec_map [simp]: "velems (vec_map f v) = map f (velems v)"
  by (simp add: vec_map_def)

lemma vgen_vec_map [simp]: "vgen (vec_map f v) = vgen v"
  by (simp add: vec_map_def)

lemma velems_vec_empty [simp]: "velems vec_empty = []"
  by (simp add: vec_empty_def)

lemma length_vec_resize [simp]: "length (velems (vec_resize n d v)) = n"
  by (simp add: vec_resize_def min_def)

lemma nth_vec_resize:
  "i < n \<Longrightarrow> velems (vec_resize n d v) ! i =
     (if i < length (velems v) then velems v ! i else d)"
  by (auto simp add: vec_resize_def nth_append min_def)

text \<open>
  The property the generation counter exists for: an operation that keeps the
  generation keeps the length, so a loop whose cached generation still matches
  reads inside the vector.
\<close>

lemma vec_resize_same_gen:
  "vgen (vec_resize n d v) = vgen v \<longleftrightarrow> n = length (velems v)"
  by (simp add: vec_resize_def)

lemma vec_resize_grow:
  "length (velems v) < n \<Longrightarrow> vgen (vec_resize n d v) = Suc (vgen v)"
  by (simp add: vec_resize_def)

end
