(* ===== verification/Signal.thy ===== *)
theory Signal
  imports Prelude
begin

text \<open>
  The dispatch point each pool owns: \<^verbatim>\<open>Signal<void(Event)>\<close> from
  \<^verbatim>\<open>delegates (virtual dispatch) with connections/signal.hpp\<close>, a header that is not
  part of \<^verbatim>\<open>src/\<close>. It is modelled from its contract in the specification
  (section 6): \<^verbatim>\<open>Bind\<close> adds a callable and returns a \<^verbatim>\<open>Connection\<close>,
  invocation calls every bound callable in subscription order, and
  \<^verbatim>\<open>Connection::Disconnect\<close> removes the binding and is idempotent. A signal is the
  list of its slots in subscription order, each a key and a callable (\<open>'h\<close> names the
  application's callables), and the next key to hand out; a connection is the key of its
  slot. Invocation itself runs callbacks and is part of the interpreter in
  \<open>Exec\<close>; this theory holds the state changes and their invariant.
\<close>

record 'h signal =
  slots :: "(nat \<times> 'h) list"
  next_slot :: nat

definition signal_empty :: "'h signal" where
  "signal_empty = \<lparr>slots = [], next_slot = 0\<rparr>"

definition signal_bind :: "'h \<Rightarrow> 'h signal \<Rightarrow> nat \<times> 'h signal" where
  "signal_bind h s =
     (next_slot s, s\<lparr>slots := slots s @ [(next_slot s, h)], next_slot := Suc (next_slot s)\<rparr>)"

definition signal_disconnect :: "nat \<Rightarrow> 'h signal \<Rightarrow> 'h signal" where
  "signal_disconnect k s = s\<lparr>slots := filter (\<lambda>(k', _). k' \<noteq> k) (slots s)\<rparr>"

definition signal_wf :: "'h signal \<Rightarrow> bool" where
  "signal_wf s \<longleftrightarrow> distinct (map fst (slots s)) \<and> (\<forall>k \<in> set (map fst (slots s)). k < next_slot s)"

definition bound_callables :: "'h signal \<Rightarrow> 'h list" where
  "bound_callables s = map snd (slots s)"

declare signal_empty_def [eval_simps] signal_bind_def [eval_simps]
  signal_disconnect_def [eval_simps]

lemma signal_wf_empty: "signal_wf signal_empty"
  by (simp add: signal_wf_def signal_empty_def)

lemma signal_bind_wf:
  "signal_wf s \<Longrightarrow> signal_bind h s = (k, s') \<Longrightarrow> signal_wf s'"
  by (fastforce simp: signal_wf_def signal_bind_def)

lemma signal_disconnect_wf:
  "signal_wf s \<Longrightarrow> signal_wf (signal_disconnect k s)"
  by (auto simp: signal_wf_def signal_disconnect_def distinct_map_filter)

lemma signal_bind_fresh:
  "signal_wf s \<Longrightarrow> signal_bind h s = (k, s') \<Longrightarrow> k \<notin> fst ` set (slots s)"
  by (auto simp: signal_wf_def signal_bind_def)

lemma bound_callables_bind:
  "signal_bind h s = (k, s') \<Longrightarrow> bound_callables s' = bound_callables s @ [h]"
  by (auto simp: signal_bind_def bound_callables_def)

lemma signal_disconnect_removes:
  "k \<notin> fst ` set (slots (signal_disconnect k s))"
  by (auto simp: signal_disconnect_def)

lemma signal_disconnect_idem:
  "signal_disconnect k (signal_disconnect k s) = signal_disconnect k s"
  by (simp add: signal_disconnect_def)

lemma signal_disconnect_absent:
  assumes "k \<notin> fst ` set (slots s)"
  shows "signal_disconnect k s = s"
proof -
  from assms have "filter (\<lambda>(k', _). k' \<noteq> k) (slots s) = slots s"
    by (intro filter_True) force
  then show ?thesis by (simp add: signal_disconnect_def)
qed

text \<open>Binding and then disconnecting the new slot restores the callables bound before.\<close>

lemma signal_bind_disconnect:
  "signal_wf s \<Longrightarrow> signal_bind h s = (k, s') \<Longrightarrow>
   slots (signal_disconnect k s') = slots s"
proof -
  assume wf: "signal_wf s" and b: "signal_bind h s = (k, s')"
  then have "k \<notin> fst ` set (slots s)" by (rule signal_bind_fresh)
  then have "filter (\<lambda>(k', _). k' \<noteq> k) (slots s) = slots s"
    by (intro filter_True) force
  with b show ?thesis by (auto simp: signal_bind_def signal_disconnect_def)
qed

end
