(* ===== verification/Pool.thy ===== *)
theory Pool
  imports Vector Signal
begin

text \<open>
  \<^verbatim>\<open>EventBus::EventPool<Event>\<close> (\<^verbatim>\<open>src/event bus/EventBus.hpp\<close>, lines 32--83): the
  per-type unit that owns a signal \<^verbatim>\<open>mSignal\<close> and the pending queue
  \<^verbatim>\<open>mEventQueue\<close> (a \<^verbatim>\<open>std::vector<Event>\<close>). Events of every type are values of
  one type \<open>'v\<close>. This theory holds the pool's record and the operations that run
  no callback: both overloads of \<^verbatim>\<open>EnqueueEvent\<close> (aggregate and constructor
  construction both append one value) and \<^verbatim>\<open>ClearEventQueue\<close>. \<^verbatim>\<open>TriggerEvent\<close>
  and \<^verbatim>\<open>DispatchQueuedEvents\<close> invoke callbacks and are modelled in \<open>Exec\<close>.
\<close>

record ('h, 'v) pool =
  psignal :: "'h signal"
  pqueue :: "'v vec"

definition pool_new :: "('h, 'v) pool" where
  "pool_new = \<lparr>psignal = signal_empty, pqueue = vec_empty\<rparr>"

definition pool_enqueue :: "'v \<Rightarrow> ('h, 'v) pool \<Rightarrow> ('h, 'v) pool" where
  "pool_enqueue e p = p\<lparr>pqueue := push_back e (pqueue p)\<rparr>"

definition pool_clear :: "('h, 'v) pool \<Rightarrow> ('h, 'v) pool" where
  "pool_clear p = p\<lparr>pqueue := vec_clear (pqueue p)\<rparr>"

definition pool_events :: "('h, 'v) pool \<Rightarrow> 'v list" where
  "pool_events p = velems (pqueue p)"

definition pool_wf :: "('h, 'v) pool \<Rightarrow> bool" where
  "pool_wf p \<longleftrightarrow> signal_wf (psignal p)"

declare pool_new_def [eval_simps] pool_enqueue_def [eval_simps] pool_clear_def [eval_simps]
  pool_events_def [eval_simps]

lemma pool_events_new [simp]: "pool_events pool_new = []"
  by (simp add: pool_new_def pool_events_def)

lemma pool_events_enqueue [simp]: "pool_events (pool_enqueue e p) = pool_events p @ [e]"
  by (simp add: pool_enqueue_def pool_events_def)

lemma pool_events_clear [simp]: "pool_events (pool_clear p) = []"
  by (simp add: pool_clear_def pool_events_def)

lemma psignal_enqueue [simp]: "psignal (pool_enqueue e p) = psignal p"
  by (simp add: pool_enqueue_def)

lemma psignal_clear [simp]: "psignal (pool_clear p) = psignal p"
  by (simp add: pool_clear_def)

lemma vgen_pool_enqueue [simp]: "vgen (pqueue (pool_enqueue e p)) = Suc (vgen (pqueue p))"
  by (simp add: pool_enqueue_def)

lemma vgen_pool_clear [simp]: "vgen (pqueue (pool_clear p)) = Suc (vgen (pqueue p))"
  by (simp add: pool_clear_def)

lemma pool_wf_new: "pool_wf pool_new"
  by (simp add: pool_wf_def pool_new_def signal_wf_empty)

lemma pool_wf_enqueue [simp]: "pool_wf (pool_enqueue e p) = pool_wf p"
  by (simp add: pool_wf_def)

lemma pool_wf_clear [simp]: "pool_wf (pool_clear p) = pool_wf p"
  by (simp add: pool_wf_def)

end
