(* ===== verification/Bus.thy ===== *)
theory Bus
  imports Registry Pool
begin

text \<open>
  The \<^verbatim>\<open>EventBus\<close> object of \<^verbatim>\<open>src/event bus/EventBus.hpp\<close> and the part of its
  interface that runs no callback. The state the bus code touches is the record
  \<open>world\<close>: the process-wide registry of event ids, the bus's \<^verbatim>\<open>mEventPools\<close> (a
  vector of nullable pool pointers, here \<open>pool option\<close>; pools are heap objects
  that never move and are never freed, so storing them in the slots loses nothing),
  and the log \<open>calls\<close> of every callable invocation, in order, with the callable,
  the pool index (the event type id) and the event it received.
  \<^verbatim>\<open>GetEventHandler\<close> resolves an event type to its pool index, growing the vector
  and creating the pool on first use; \<^verbatim>\<open>EnqueueEvent\<close>, both
  \<^verbatim>\<open>ClearEventQueues\<close>, \<^verbatim>\<open>SubscribeToEvent\<close> and \<^verbatim>\<open>UnsubscribeFromEvent\<close>
  follow. The invariant \<open>world_wf\<close> relates pools to registered ids.
\<close>

datatype connection = Connection nat nat  \<comment> \<open>pool index (the signal) and slot key\<close>

record ('ty, 'h, 'v) world =
  registry :: "'ty registry"
  event_pools :: "('h, 'v) pool option vec"
  calls :: "('h \<times> nat \<times> 'v) list"

definition world_init :: "('ty, 'h, 'v) world" where
  "world_init = \<lparr>registry = registry_init, event_pools = vec_empty, calls = []\<rparr>"

definition pool_at :: "('ty, 'h, 'v) world \<Rightarrow> nat \<Rightarrow> ('h, 'v) pool option" where
  "pool_at w i = (if i < length (velems (event_pools w)) then velems (event_pools w) ! i else None)"

text \<open>
  \<open>handler w i\<close> is the pool the reference \<^verbatim>\<open>*mEventPools[i]\<close> denotes;
  \<open>get_event_handler\<close> only returns indices whose slot holds a pool
  (\<open>get_event_handler_pool\<close>), so the default is never used.
\<close>

definition handler :: "('ty, 'h, 'v) world \<Rightarrow> nat \<Rightarrow> ('h, 'v) pool" where
  "handler w i = (case pool_at w i of Some p \<Rightarrow> p | None \<Rightarrow> pool_new)"

definition set_pool :: "nat \<Rightarrow> ('h, 'v) pool \<Rightarrow> ('ty, 'h, 'v) world \<Rightarrow> ('ty, 'h, 'v) world" where
  "set_pool i p w = w\<lparr>event_pools := vec_set i (Some p) (event_pools w)\<rparr>"

definition map_pool ::
  "nat \<Rightarrow> (('h, 'v) pool \<Rightarrow> ('h, 'v) pool) \<Rightarrow> ('ty, 'h, 'v) world \<Rightarrow> ('ty, 'h, 'v) world" where
  "map_pool i f w = (case pool_at w i of None \<Rightarrow> w | Some p \<Rightarrow> set_pool i (f p) w)"

definition get_event_handler :: "'ty \<Rightarrow> ('ty, 'h, 'v) world \<Rightarrow> nat \<times> ('ty, 'h, 'v) world" where
  "get_event_handler ty w =
     (let (i, r) = get_event_id ty (registry w);
          ps = event_pools w;
          ps1 = (if length (velems ps) \<le> i then vec_resize (Suc i) None ps else ps);
          ps2 = (case velems ps1 ! i of None \<Rightarrow> vec_set i (Some pool_new) ps1 | Some _ \<Rightarrow> ps1)
      in (i, w\<lparr>registry := r, event_pools := ps2\<rparr>))"

definition enqueue_event :: "'ty \<Rightarrow> 'v \<Rightarrow> ('ty, 'h, 'v) world \<Rightarrow> ('ty, 'h, 'v) world" where
  "enqueue_event ty e w = (let (i, w1) = get_event_handler ty w in map_pool i (pool_enqueue e) w1)"

definition clear_event_queues :: "('ty, 'h, 'v) world \<Rightarrow> ('ty, 'h, 'v) world" where
  "clear_event_queues w = w\<lparr>event_pools := vec_map (map_option pool_clear) (event_pools w)\<rparr>"

fun clear_event_queues_only :: "'ty list \<Rightarrow> ('ty, 'h, 'v) world \<Rightarrow> ('ty, 'h, 'v) world" where
  "clear_event_queues_only [] w = w"
| "clear_event_queues_only (ty # tys) w =
     (let (i, w1) = get_event_handler ty w in clear_event_queues_only tys (map_pool i pool_clear w1))"

definition subscribe_to_event :: "'ty \<Rightarrow> 'h \<Rightarrow> ('ty, 'h, 'v) world \<Rightarrow> connection \<times> ('ty, 'h, 'v) world" where
  "subscribe_to_event ty h w =
     (let (i, w1) = get_event_handler ty w;
          p = handler w1 i;
          (k, s') = signal_bind h (psignal p)
      in (Connection i k, set_pool i (p\<lparr>psignal := s'\<rparr>) w1))"

fun unsubscribe_from_event :: "connection \<Rightarrow> ('ty, 'h, 'v) world \<Rightarrow> ('ty, 'h, 'v) world" where
  "unsubscribe_from_event (Connection i k) w =
     map_pool i (\<lambda>p. p\<lparr>psignal := signal_disconnect k (psignal p)\<rparr>) w"

text \<open>
  Well-formedness of a world: the registry is well formed, every slot of
  \<^verbatim>\<open>mEventPools\<close> lies below the id counter, and every pool is well formed.
  Slots may be empty: the ids are process-wide, so ids drawn for types this bus never
  saw (through another bus) leave holes.
\<close>

definition world_wf :: "('ty, 'h, 'v) world \<Rightarrow> bool" where
  "world_wf w \<longleftrightarrow>
     registry_wf (registry w) \<and>
     length (velems (event_pools w)) \<le> unique_id (registry w) \<and>
     (\<forall>p \<in> set (velems (event_pools w)). case p of None \<Rightarrow> True | Some q \<Rightarrow> pool_wf q)"

declare world_init_def [eval_simps] pool_at_def [eval_simps] handler_def [eval_simps]
  set_pool_def [eval_simps] map_pool_def [eval_simps] get_event_handler_def [eval_simps]
  enqueue_event_def [eval_simps] clear_event_queues_def [eval_simps]
  subscribe_to_event_def [eval_simps]

subsection \<open>Pool access\<close>

lemma pool_at_set_pool [simp]:
  "pool_at (set_pool i p w) j =
     (if j = i \<and> i < length (velems (event_pools w)) then Some p else pool_at w j)"
  by (simp add: pool_at_def set_pool_def)

lemma set_pool_fields [simp]:
  "registry (set_pool i p w) = registry w"
  "calls (set_pool i p w) = calls w"
  "vgen (event_pools (set_pool i p w)) = vgen (event_pools w)"
  "length (velems (event_pools (set_pool i p w))) = length (velems (event_pools w))"
  by (simp_all add: set_pool_def)

lemma pool_at_map_pool [simp]:
  "pool_at (map_pool i f w) j = (if j = i then map_option f (pool_at w i) else pool_at w j)"
  by (auto simp: map_pool_def pool_at_def set_pool_def split: option.split)

lemma map_pool_fields [simp]:
  "registry (map_pool i f w) = registry w"
  "calls (map_pool i f w) = calls w"
  "vgen (event_pools (map_pool i f w)) = vgen (event_pools w)"
  "length (velems (event_pools (map_pool i f w))) = length (velems (event_pools w))"
  by (simp_all add: map_pool_def split: option.split)

lemma pool_at_calls_update [simp]: "pool_at (w\<lparr>calls := cs\<rparr>) i = pool_at w i"
  by (simp add: pool_at_def)

lemma handler_Some: "pool_at w i = Some p \<Longrightarrow> handler w i = p"
  by (simp add: handler_def)

lemma pool_at_bound: "pool_at w i = Some p \<Longrightarrow> i < length (velems (event_pools w))"
  by (simp add: pool_at_def split: if_splits)

subsection \<open>GetEventHandler\<close>

text \<open>
  What \<^verbatim>\<open>GetEventHandler\<close> does, in one equation: it draws the id from the registry,
  leaves every other slot alone, and the slot of the id holds the existing pool or a
  new one. The vector's generation changes exactly when it had to grow.
\<close>

lemma get_event_handler_eq:
  assumes "get_event_handler ty w = (i, w')"
  shows "get_event_id ty (registry w) = (i, registry w')"
    and "pool_at w' i = Some (handler w i)"
    and "j \<noteq> i \<Longrightarrow> pool_at w' j = pool_at w j"
    and "calls w' = calls w"
    and "length (velems (event_pools w')) = max (length (velems (event_pools w))) (Suc i)"
    and "vgen (event_pools w') =
           (if i < length (velems (event_pools w)) then vgen (event_pools w) else Suc (vgen (event_pools w)))"
  using assms
  by (auto simp: get_event_handler_def handler_def pool_at_def nth_vec_resize nth_list_update
        vec_resize_grow Let_def split: prod.splits option.splits if_splits)


lemma get_event_handler_pool:
  "get_event_handler ty w = (i, w') \<Longrightarrow> handler w' i = handler w i"
  by (simp add: handler_Some get_event_handler_eq(2))

lemma get_event_handler_bound:
  "get_event_handler ty w = (i, w') \<Longrightarrow> i < length (velems (event_pools w'))"
  by (drule get_event_handler_eq(5)) simp

text \<open>A second call for the same type finds the pool the first one created.\<close>

lemma get_event_handler_twice:
  assumes "get_event_handler ty w = (i, w')"
  shows "get_event_handler ty w' = (i, w')"
proof -
  from assms have id: "get_event_id ty (registry w) = (i, registry w')"
    by (rule get_event_handler_eq(1))
  then have "get_event_id ty (registry w') = (i, registry w')"
    by (rule get_event_id_known[OF get_event_id_map_of])
  moreover from assms have p: "pool_at w' i = Some (handler w i)"
    by (rule get_event_handler_eq(2))
  then have "i < length (velems (event_pools w'))" and "velems (event_pools w') ! i = Some (handler w i)"
    by (simp_all add: pool_at_def split: if_splits)
  ultimately show ?thesis
    by (simp add: get_event_handler_def Let_def)
qed

subsection \<open>Well-formedness\<close>

lemma pools_wf_iff:
  "(\<forall>p \<in> set (velems (event_pools w)). case p of None \<Rightarrow> True | Some q \<Rightarrow> pool_wf q) \<longleftrightarrow>
   (\<forall>i q. pool_at w i = Some q \<longrightarrow> pool_wf q)"
  by (force simp: pool_at_def in_set_conv_nth split: option.splits)

lemma world_wf_iff:
  "world_wf w \<longleftrightarrow>
     registry_wf (registry w) \<and> length (velems (event_pools w)) \<le> unique_id (registry w) \<and>
     (\<forall>i q. pool_at w i = Some q \<longrightarrow> pool_wf q)"
  by (simp only: world_wf_def pools_wf_iff)

lemma world_wf_pool:
  "world_wf w \<Longrightarrow> pool_at w i = Some p \<Longrightarrow> pool_wf p"
  by (simp add: world_wf_iff)

lemma world_wf_handler:
  "world_wf w \<Longrightarrow> pool_wf (handler w i)"
  by (auto simp: handler_def world_wf_iff pool_wf_new split: option.split)

lemma world_wf_init: "world_wf world_init"
  by (simp add: world_wf_def world_init_def registry_wf_init)

lemma get_event_handler_wf:
  assumes wf: "world_wf w" and g: "get_event_handler ty w = (i, w')"
  shows "world_wf w'"
proof -
  note eq = get_event_handler_eq[OF g]
  from wf have r0: "registry_wf (registry w)" by (simp add: world_wf_def)
  with eq(1) have r: "registry_wf (registry w')" and b: "i < unique_id (registry w')"
    by (simp_all add: get_event_id_wf get_event_id_bound)
  have "unique_id (registry w) \<le> unique_id (registry w')"
    using eq(1) by (rule get_event_id_counter_mono)
  with wf b have len: "length (velems (event_pools w')) \<le> unique_id (registry w')"
    by (simp add: eq(5) world_wf_def)
  have "\<forall>j q. pool_at w' j = Some q \<longrightarrow> pool_wf q"
  proof (intro allI impI)
    fix j q
    assume q: "pool_at w' j = Some q"
    show "pool_wf q"
    proof (cases "j = i")
      case True
      with q eq(2) have "q = handler w i" by simp
      with wf show ?thesis by (simp add: world_wf_handler)
    next
      case False
      with q eq(3) have "pool_at w j = Some q" by simp
      with wf show ?thesis by (rule world_wf_pool)
    qed
  qed
  with r len show ?thesis by (simp only: world_wf_iff simp_thms)
qed

lemma map_pool_wf:
  assumes wf: "world_wf w" and f: "\<And>p. pool_wf p \<Longrightarrow> pool_wf (f p)"
  shows "world_wf (map_pool i f w)"
proof -
  have "pool_wf q" if q: "pool_at (map_pool i f w) j = Some q" for j q
  proof (cases "j = i")
    case True
    with q obtain p where "pool_at w i = Some p" "q = f p" by auto
    with wf f show ?thesis by (blast intro: world_wf_pool)
  next
    case False
    with q wf show ?thesis by (simp add: world_wf_pool)
  qed
  with wf show ?thesis by (simp add: world_wf_iff)
qed

lemma set_pool_wf:
  assumes wf: "world_wf w" and p: "pool_wf p"
  shows "world_wf (set_pool i p w)"
proof -
  have "pool_wf q" if q: "pool_at (set_pool i p w) j = Some q" for j q
    using q wf p by (auto simp: world_wf_pool split: if_splits)
  with wf show ?thesis by (simp add: world_wf_iff)
qed

end
