(* ===== verification/Exec.thy ===== *)
theory Exec
  imports Bus
begin

text \<open>
  The operations of \<^verbatim>\<open>src/event bus/EventBus.hpp\<close> that invoke callables. They are
  defined over an \<open>invoker\<close>, the interface between the bus and the application:
  \<open>run h e w\<close> is what invoking the bound callable \<open>h\<close> with the event \<open>e\<close> does to
  the world (it may call back into the bus). Each definition is one C++ function or
  loop:
  \<^item> \<open>invoke_slots\<close>: \<^verbatim>\<open>Signal::operator()\<close> over the slots bound when the
    invocation starts, in subscription order; every invocation is logged in
    \<open>calls\<close> before the callable runs;
  \<^item> \<open>pool_trigger_event\<close>: \<^verbatim>\<open>EventPool::TriggerEvent\<close> (lines 37--42);
  \<^item> \<open>trigger_event\<close>: both \<^verbatim>\<open>EventBus::TriggerEvent\<close> overloads (180--190);
  \<^item> \<open>pool_dispatch_loop\<close>, \<open>pool_dispatch_queued_events\<close>:
    \<^verbatim>\<open>EventPool::DispatchQueuedEvents\<close> (67--73): the range-for over
    \<^verbatim>\<open>mEventQueue\<close> and the \<^verbatim>\<open>ClearEventQueue\<close> after it;
  \<^item> \<open>dispatch_loop\<close>, \<open>dispatch_queued_events\<close>: \<^verbatim>\<open>EventBus::DispatchQueuedEvents()\<close>
    (210--215), the range-for over \<^verbatim>\<open>mEventPools\<close>;
  \<^item> \<open>dispatch_queued_events_of\<close>: the variadic \<^verbatim>\<open>DispatchQueuedEvents<Event...>()\<close>
    (204--208). Its body is a fold over the pack of
    \<^verbatim>\<open>GetEventHandler<Event>().DispatchEvents()\<close> inside a \<^verbatim>\<open>const\<close> member: the
    non-\<^verbatim>\<open>const\<close> \<^verbatim>\<open>GetEventHandler\<close> cannot be called there and
    \<^verbatim>\<open>EventPool\<close> has no member \<^verbatim>\<open>DispatchEvents\<close>, so every instantiation with a
    non-empty pack is rejected by the compiler (\<open>IllFormed\<close>: no program performs
    it); the empty pack folds to \<^verbatim>\<open>void()\<close> and does nothing;
  \<^item> \<open>bus_call\<close>: the public interface of \<^verbatim>\<open>EventBus\<close>, one \<open>action\<close> per member
    function; \<open>exec_actions\<close> runs a sequence of them (the body of an application
    callable, not code of the repository).
  A range-for loop caches its begin and end iterators and compares them before every
  iteration; the loop models check that the vector is still at the generation it had
  when the loop started and stop with \<open>IteratorInvalidated\<close> otherwise.
\<close>

type_synonym ('ty, 'h, 'v) invoker =
  "'h \<Rightarrow> 'v \<Rightarrow> ('ty, 'h, 'v) world \<Rightarrow> ('ty, 'h, 'v) world result"

definition log_call :: "'h \<Rightarrow> nat \<Rightarrow> 'v \<Rightarrow> ('ty, 'h, 'v) world \<Rightarrow> ('ty, 'h, 'v) world" where
  "log_call h i e w = w\<lparr>calls := calls w @ [(h, i, e)]\<rparr>"

fun invoke_slots ::
  "('ty, 'h, 'v) invoker \<Rightarrow> nat \<Rightarrow> (nat \<times> 'h) list \<Rightarrow> 'v \<Rightarrow> ('ty, 'h, 'v) world \<Rightarrow> ('ty, 'h, 'v) world result"
where
  "invoke_slots run i [] e w = Inr w"
| "invoke_slots run i ((k, h) # ss) e w = bindE (run h e (log_call h i e w)) (invoke_slots run i ss e)"

definition pool_trigger_event ::
  "('ty, 'h, 'v) invoker \<Rightarrow> nat \<Rightarrow> 'v \<Rightarrow> ('ty, 'h, 'v) world \<Rightarrow> ('ty, 'h, 'v) world result"
where
  "pool_trigger_event run i e w = invoke_slots run i (slots (psignal (handler w i))) e w"

definition trigger_event ::
  "('ty, 'h, 'v) invoker \<Rightarrow> 'ty \<Rightarrow> 'v \<Rightarrow> ('ty, 'h, 'v) world \<Rightarrow> ('ty, 'h, 'v) world result"
where
  "trigger_event run ty e w = (let (i, w1) = get_event_handler ty w in pool_trigger_event run i e w1)"

function pool_dispatch_loop ::
  "('ty, 'h, 'v) invoker \<Rightarrow> nat \<Rightarrow> nat \<Rightarrow> nat \<Rightarrow> nat \<Rightarrow> ('ty, 'h, 'v) world \<Rightarrow> ('ty, 'h, 'v) world result"
where
  "pool_dispatch_loop run i j n g w =
     (let q = pqueue (handler w i) in
      if vgen q \<noteq> g then Inl IteratorInvalidated
      else if n \<le> j then Inr (map_pool i pool_clear w)
      else bindE (invoke_slots run i (slots (psignal (handler w i))) (velems q ! j) w)
                 (pool_dispatch_loop run i (Suc j) n g))"
  by pat_completeness auto
termination
  by (relation "measure (\<lambda>(run, i, j, n, g, w). n - j)") auto

definition pool_dispatch_queued_events ::
  "('ty, 'h, 'v) invoker \<Rightarrow> nat \<Rightarrow> ('ty, 'h, 'v) world \<Rightarrow> ('ty, 'h, 'v) world result"
where
  "pool_dispatch_queued_events run i w =
     (let q = pqueue (handler w i) in pool_dispatch_loop run i 0 (length (velems q)) (vgen q) w)"

function dispatch_loop ::
  "('ty, 'h, 'v) invoker \<Rightarrow> nat \<Rightarrow> nat \<Rightarrow> nat \<Rightarrow> ('ty, 'h, 'v) world \<Rightarrow> ('ty, 'h, 'v) world result"
where
  "dispatch_loop run j n g w =
     (if vgen (event_pools w) \<noteq> g then Inl IteratorInvalidated
      else if n \<le> j then Inr w
      else case velems (event_pools w) ! j of
             None \<Rightarrow> dispatch_loop run (Suc j) n g w
           | Some _ \<Rightarrow> bindE (pool_dispatch_queued_events run j w) (dispatch_loop run (Suc j) n g))"
  by pat_completeness auto
termination
  by (relation "measure (\<lambda>(run, j, n, g, w). n - j)") auto

definition dispatch_queued_events ::
  "('ty, 'h, 'v) invoker \<Rightarrow> ('ty, 'h, 'v) world \<Rightarrow> ('ty, 'h, 'v) world result"
where
  "dispatch_queued_events run w =
     dispatch_loop run 0 (length (velems (event_pools w))) (vgen (event_pools w)) w"

fun dispatch_queued_events_of ::
  "('ty, 'h, 'v) invoker \<Rightarrow> 'ty list \<Rightarrow> ('ty, 'h, 'v) world \<Rightarrow> ('ty, 'h, 'v) world result"
where
  "dispatch_queued_events_of run [] w = Inr w"
| "dispatch_queued_events_of run (ty # tys) w = Inl IllFormed"

datatype ('ty, 'h, 'v) action =
    TriggerEvent 'ty 'v
  | EnqueueEvent 'ty 'v
  | DispatchQueuedEvents
  | DispatchQueuedEventsOf "'ty list"
  | ClearEventQueues
  | ClearEventQueuesOf "'ty list"
  | SubscribeToEvent 'ty 'h
  | UnsubscribeFromEvent connection

fun bus_call ::
  "('ty, 'h, 'v) invoker \<Rightarrow> ('ty, 'h, 'v) action \<Rightarrow> ('ty, 'h, 'v) world \<Rightarrow> ('ty, 'h, 'v) world result"
where
  "bus_call run (TriggerEvent ty e) w = trigger_event run ty e w"
| "bus_call run (EnqueueEvent ty e) w = Inr (enqueue_event ty e w)"
| "bus_call run DispatchQueuedEvents w = dispatch_queued_events run w"
| "bus_call run (DispatchQueuedEventsOf tys) w = dispatch_queued_events_of run tys w"
| "bus_call run ClearEventQueues w = Inr (clear_event_queues w)"
| "bus_call run (ClearEventQueuesOf tys) w = Inr (clear_event_queues_only tys w)"
| "bus_call run (SubscribeToEvent ty h) w = Inr (snd (subscribe_to_event ty h w))"
| "bus_call run (UnsubscribeFromEvent c) w = Inr (unsubscribe_from_event c w)"

fun exec_actions ::
  "('ty, 'h, 'v) invoker \<Rightarrow> ('ty, 'h, 'v) action list \<Rightarrow> ('ty, 'h, 'v) world \<Rightarrow> ('ty, 'h, 'v) world result"
where
  "exec_actions run [] w = Inr w"
| "exec_actions run (a # as) w = bindE (bus_call run a w) (exec_actions run as)"

declare pool_dispatch_loop.simps [simp del] dispatch_loop.simps [simp del]

declare log_call_def [eval_simps] pool_trigger_event_def [eval_simps] trigger_event_def [eval_simps]


subsection \<open>Monotonicity in the invoker\<close>

text \<open>
  \<open>invoker_le run run'\<close>: \<open>run'\<close> agrees with \<open>run\<close> wherever \<open>run\<close> does not
  exhaust the stack. Every operation above inherits it; with it, more fuel for the
  callables never changes a result (theory \<open>App\<close>).
\<close>

definition invoker_le :: "('ty, 'h, 'v) invoker \<Rightarrow> ('ty, 'h, 'v) invoker \<Rightarrow> bool" where
  "invoker_le run run' \<longleftrightarrow> (\<forall>h e w. run h e w \<noteq> Inl StackExhausted \<longrightarrow> run' h e w = run h e w)"

named_theorems invoker_mono "operations keep their result under a larger invoker"

lemma invoke_slots_mono [invoker_mono]:
  "invoker_le run run' \<Longrightarrow> invoke_slots run i ss e w \<noteq> Inl StackExhausted \<Longrightarrow>
   invoke_slots run' i ss e w = invoke_slots run i ss e w"
proof (induction run i ss e w rule: invoke_slots.induct)
  case (2 run i k h ss e w)
  from "2.prems" show ?case
    by (auto intro!: bindE_mono "2.IH" simp: invoker_le_def)
qed simp

lemma pool_trigger_event_mono [invoker_mono]:
  "invoker_le run run' \<Longrightarrow> pool_trigger_event run i e w \<noteq> Inl StackExhausted \<Longrightarrow>
   pool_trigger_event run' i e w = pool_trigger_event run i e w"
  by (simp add: pool_trigger_event_def invoke_slots_mono)

lemma trigger_event_mono [invoker_mono]:
  "invoker_le run run' \<Longrightarrow> trigger_event run ty e w \<noteq> Inl StackExhausted \<Longrightarrow>
   trigger_event run' ty e w = trigger_event run ty e w"
  by (cases "get_event_handler ty w") (simp add: trigger_event_def pool_trigger_event_mono)

lemma pool_dispatch_loop_mono [invoker_mono]:
  "invoker_le run run' \<Longrightarrow> pool_dispatch_loop run i j n g w \<noteq> Inl StackExhausted \<Longrightarrow>
   pool_dispatch_loop run' i j n g w = pool_dispatch_loop run i j n g w"
proof (induction run i j n g w rule: pool_dispatch_loop.induct)
  case (1 run i j n g w)
  let ?q = "pqueue (handler w i)"
  show ?case
  proof (cases "vgen ?q \<noteq> g \<or> n \<le> j")
    case True
    then show ?thesis by (subst (1 2) pool_dispatch_loop.simps) (auto simp: Let_def)
  next
    case False
    then have eq: "\<And>r. pool_dispatch_loop r i j n g w =
        bindE (invoke_slots r i (slots (psignal (handler w i))) (velems ?q ! j) w)
              (pool_dispatch_loop r i (Suc j) n g)"
      by (subst pool_dispatch_loop.simps) (simp add: Let_def)
    from "1.prems"(2) show ?thesis unfolding eq
      using "1.prems"(1) "1.IH"[OF refl] False by (auto intro!: bindE_mono invoke_slots_mono)
  qed
qed

lemma pool_dispatch_queued_events_mono [invoker_mono]:
  "invoker_le run run' \<Longrightarrow> pool_dispatch_queued_events run i w \<noteq> Inl StackExhausted \<Longrightarrow>
   pool_dispatch_queued_events run' i w = pool_dispatch_queued_events run i w"
  by (simp add: pool_dispatch_queued_events_def Let_def pool_dispatch_loop_mono)

lemma dispatch_loop_mono [invoker_mono]:
  "invoker_le run run' \<Longrightarrow> dispatch_loop run j n g w \<noteq> Inl StackExhausted \<Longrightarrow>
   dispatch_loop run' j n g w = dispatch_loop run j n g w"
proof (induction run j n g w rule: dispatch_loop.induct)
  case (1 run j n g w)
  show ?case
  proof (cases "vgen (event_pools w) \<noteq> g \<or> n \<le> j")
    case True
    then show ?thesis by (subst (1 2) dispatch_loop.simps) auto
  next
    case False
    show ?thesis
    proof (cases "velems (event_pools w) ! j")
      case None
      with False have eq: "\<And>r. dispatch_loop r j n g w = dispatch_loop r (Suc j) n g w"
        by (subst dispatch_loop.simps) simp
      from "1.prems" show ?thesis unfolding eq using "1.IH"(1) False None by simp
    next
      case (Some x)
      with False have eq: "\<And>r. dispatch_loop r j n g w =
          bindE (pool_dispatch_queued_events r j w) (dispatch_loop r (Suc j) n g)"
        by (subst dispatch_loop.simps) simp
      from "1.prems"(2) show ?thesis unfolding eq
        using "1.prems"(1) "1.IH"(2) False Some
        by (auto intro!: bindE_mono pool_dispatch_queued_events_mono)
    qed
  qed
qed

lemma dispatch_queued_events_mono [invoker_mono]:
  "invoker_le run run' \<Longrightarrow> dispatch_queued_events run w \<noteq> Inl StackExhausted \<Longrightarrow>
   dispatch_queued_events run' w = dispatch_queued_events run w"
  by (simp add: dispatch_queued_events_def dispatch_loop_mono)

lemma dispatch_queued_events_of_mono [invoker_mono]:
  "invoker_le run run' \<Longrightarrow> dispatch_queued_events_of run tys w \<noteq> Inl StackExhausted \<Longrightarrow>
   dispatch_queued_events_of run' tys w = dispatch_queued_events_of run tys w"
  by (cases tys) simp_all

lemma bus_call_mono [invoker_mono]:
  "invoker_le run run' \<Longrightarrow> bus_call run a w \<noteq> Inl StackExhausted \<Longrightarrow>
   bus_call run' a w = bus_call run a w"
  by (cases a) (simp_all add: trigger_event_mono dispatch_queued_events_mono dispatch_queued_events_of_mono)

lemma exec_actions_mono [invoker_mono]:
  "invoker_le run run' \<Longrightarrow> exec_actions run as w \<noteq> Inl StackExhausted \<Longrightarrow>
   exec_actions run' as w = exec_actions run as w"
proof (induction run as w rule: exec_actions.induct)
  case (2 run a as w)
  from "2.prems" show ?case
    by (auto simp: bus_call_mono intro!: bindE_mono "2.IH")
qed simp

end
