(* ===== verification/App.thy ===== *)
theory App
  imports Exec
begin

text \<open>
  The closed system: a bus together with the application's callables. A program
  \<open>p\<close> gives, for each callable \<open>h\<close> and event \<open>e\<close>, the sequence of bus calls the
  callable makes (\<^verbatim>\<open>EventBus\<close> member functions, in order). \<open>run_callable f p\<close>
  is the invoker of that program when at most \<open>f\<close> callables may be active on the
  call stack at once: invoking a callable spends one unit, so a callable that
  re-enters the bus forever ends in \<open>StackExhausted\<close>, as the C++ program ends in a
  stack overflow. \<open>bus_exec p f a w\<close> is one call of the application into the bus.
  The fuel is the only bound of the model; \<open>run_callable_le\<close> shows that more
  of it never changes a result that did not exhaust it.
\<close>

type_synonym ('ty, 'h, 'v) program = "'h \<Rightarrow> 'v \<Rightarrow> ('ty, 'h, 'v) action list"

primrec run_callable :: "nat \<Rightarrow> ('ty, 'h, 'v) program \<Rightarrow> ('ty, 'h, 'v) invoker" where
  "run_callable 0 p = (\<lambda>h e w. Inl StackExhausted)"
| "run_callable (Suc f) p = (\<lambda>h e w. exec_actions (run_callable f p) (p h e) w)"

definition bus_exec ::
  "('ty, 'h, 'v) program \<Rightarrow> nat \<Rightarrow> ('ty, 'h, 'v) action \<Rightarrow> ('ty, 'h, 'v) world \<Rightarrow> ('ty, 'h, 'v) world result"
where
  "bus_exec p f a w = bus_call (run_callable f p) a w"

text \<open>A program whose callables only observe the events they receive.\<close>

definition observers :: "('ty, 'h, 'v) program \<Rightarrow> bool" where
  "observers p \<longleftrightarrow> (\<forall>h e. p h e = [])"

definition silent :: "('ty, 'h, 'v) invoker" where
  "silent h e w = Inr w"

lemma run_callable_le:
  "f \<le> f' \<Longrightarrow> invoker_le (run_callable f p) (run_callable f' p)"
proof (induction f arbitrary: f')
  case 0
  show ?case by (simp add: invoker_le_def)
next
  case (Suc f)
  then obtain f0 where f': "f' = Suc f0" and le: "f \<le> f0" by (cases f') auto
  from Suc.IH [OF le] show ?case
    by (simp add: f' invoker_le_def exec_actions_mono)
qed

lemma run_callable_observers:
  "observers p \<Longrightarrow> 0 < f \<Longrightarrow> run_callable f p = silent"
  by (cases f) (simp_all add: observers_def silent_def fun_eq_iff)

end
