(* ===== verification/Closure.thy ===== *)
theory Closure
  imports App
begin

text \<open>
  Properties that the bus keeps however the callables re-enter it. \<open>bus_order R\<close>
  says that \<open>R\<close> is a preorder on worlds in which every step of the bus that runs no
  callable moves forward: logging an invocation, \<^verbatim>\<open>GetEventHandler\<close>, clearing a
  pool's queue, and the members \<^verbatim>\<open>EnqueueEvent\<close>, \<^verbatim>\<open>ClearEventQueues\<close>,
  \<^verbatim>\<open>SubscribeToEvent\<close>, \<^verbatim>\<open>UnsubscribeFromEvent\<close>. \<open>invoker_forward R run\<close> says that
  every normal return of the invoker \<open>run\<close> moves forward in \<open>R\<close>. The lemmas of this
  theory lift the two to every operation of \<open>Exec\<close> and, by induction on the fuel, to
  every program's \<open>run_callable\<close>: the closure argument once, for every such order.
  Its instances are the iterator generations (\<open>Generations\<close>), the well-formedness
  invariant (\<open>Invariant\<close>), the density of \<^verbatim>\<open>mEventPools\<close> (\<open>Density\<close>) and,
  through \<open>bus_order_conj\<close>, the lifecycle of pools and ids (\<open>Lifecycle\<close>).
\<close>

definition invoker_forward ::
  "(('ty, 'h, 'v) world \<Rightarrow> ('ty, 'h, 'v) world \<Rightarrow> bool) \<Rightarrow> ('ty, 'h, 'v) invoker \<Rightarrow> bool"
where
  "invoker_forward R run \<longleftrightarrow> (\<forall>h e w w'. run h e w = Inr w' \<longrightarrow> R w w')"

definition bus_order :: "(('ty, 'h, 'v) world \<Rightarrow> ('ty, 'h, 'v) world \<Rightarrow> bool) \<Rightarrow> bool" where
  "bus_order R \<longleftrightarrow>
     (\<forall>w. R w w) \<and> (\<forall>w1 w2 w3. R w1 w2 \<longrightarrow> R w2 w3 \<longrightarrow> R w1 w3) \<and>
     (\<forall>h i e w. R w (log_call h i e w)) \<and>
     (\<forall>ty w i w1. get_event_handler ty w = (i, w1) \<longrightarrow> R w w1) \<and>
     (\<forall>i w. R w (map_pool i pool_clear w)) \<and>
     (\<forall>ty e w. R w (enqueue_event ty e w)) \<and>
     (\<forall>w. R w (clear_event_queues w)) \<and>
     (\<forall>ty h w. R w (snd (subscribe_to_event ty h w))) \<and>
     (\<forall>c w. R w (unsubscribe_from_event c w))"

lemma bus_orderI:
  assumes "\<And>w. R w w" and "\<And>w1 w2 w3. R w1 w2 \<Longrightarrow> R w2 w3 \<Longrightarrow> R w1 w3"
    and "\<And>h i e w. R w (log_call h i e w)"
    and "\<And>ty w i w1. get_event_handler ty w = (i, w1) \<Longrightarrow> R w w1"
    and "\<And>i w. R w (map_pool i pool_clear w)"
    and "\<And>ty e w. R w (enqueue_event ty e w)"
    and "\<And>w. R w (clear_event_queues w)"
    and "\<And>ty h w. R w (snd (subscribe_to_event ty h w))"
    and "\<And>c w. R w (unsubscribe_from_event c w)"
  shows "bus_order R"
  unfolding bus_order_def using assms(2) by (simp add: assms(1,3-))

lemma bus_orderD:
  assumes "bus_order R"
  shows bus_order_refl: "R w w"
    and bus_order_trans: "R w1 w2 \<Longrightarrow> R w2 w3 \<Longrightarrow> R w1 w3"
    and bus_order_log_call: "R w (log_call h i e w)"
    and bus_order_get_event_handler: "get_event_handler ty w = (i, w1) \<Longrightarrow> R w w1"
    and bus_order_pool_clear: "R w (map_pool i pool_clear w)"
    and bus_order_enqueue_event: "R w (enqueue_event ty e w)"
    and bus_order_clear_event_queues: "R w (clear_event_queues w)"
    and bus_order_subscribe_to_event: "R w (snd (subscribe_to_event ty h w))"
    and bus_order_unsubscribe_from_event: "R w (unsubscribe_from_event c w)"
  using assms unfolding bus_order_def by simp_all

lemma bus_order_conj:
  assumes R: "bus_order R" and S: "bus_order S"
  shows "bus_order (\<lambda>w w'. R w w' \<and> S w w')"
  by (rule bus_orderI) (auto simp: bus_orderD [OF R] bus_orderD [OF S]
      intro: bus_order_trans [OF R] bus_order_trans [OF S])

lemma invoker_forwardD: "invoker_forward R run \<Longrightarrow> run h e w = Inr w' \<Longrightarrow> R w w'"
  by (simp add: invoker_forward_def)

lemma clear_event_queues_only_order:
  assumes "bus_order R"
  shows "R w (clear_event_queues_only tys w)"
proof (induction tys arbitrary: w)
  case Nil
  show ?case by (simp add: bus_order_refl [OF assms])
next
  case (Cons ty tys)
  obtain i w1 where g: "get_event_handler ty w = (i, w1)" by (cases "get_event_handler ty w")
  have "R w (map_pool i pool_clear w1)"
    by (rule bus_order_trans [OF assms bus_order_get_event_handler [OF assms g]
          bus_order_pool_clear [OF assms]])
  from bus_order_trans [OF assms this Cons.IH] g show ?case by simp
qed

lemma invoke_slots_order:
  assumes R: "bus_order R" and run: "invoker_forward R run"
  shows "invoke_slots run i ss e w = Inr w' \<Longrightarrow> R w w'"
proof (induction ss arbitrary: w)
  case Nil
  then show ?case by (simp add: bus_order_refl [OF R])
next
  case (Cons s ss)
  obtain k h where s: "s = (k, h)" by (cases s)
  from Cons.prems s obtain x where x: "run h e (log_call h i e w) = Inr x"
    and rest: "invoke_slots run i ss e x = Inr w'"
    by (auto simp: bindE_eq_Inr)
  have "R w x" by (rule bus_order_trans [OF R bus_order_log_call [OF R] invoker_forwardD [OF run x]])
  from bus_order_trans [OF R this Cons.IH [OF rest]] show ?case .
qed

lemma trigger_event_order:
  assumes R: "bus_order R" and run: "invoker_forward R run" and t: "trigger_event run ty e w = Inr w'"
  shows "R w w'"
proof -
  obtain i w1 where g: "get_event_handler ty w = (i, w1)" by (cases "get_event_handler ty w")
  with t have "invoke_slots run i (slots (psignal (handler w1 i))) e w1 = Inr w'"
    by (simp add: trigger_event_def pool_trigger_event_def)
  from bus_order_trans [OF R bus_order_get_event_handler [OF R g] invoke_slots_order [OF R run this]]
  show ?thesis .
qed

lemma pool_dispatch_loop_order:
  assumes R: "bus_order R"
  shows "invoker_forward R run \<Longrightarrow> pool_dispatch_loop run i j n g w = Inr w' \<Longrightarrow> R w w'"
proof (induction run i j n g w rule: pool_dispatch_loop.induct)
  case (1 run i j n g w)
  let ?q = "pqueue (handler w i)"
  show ?case
  proof (cases "vgen ?q \<noteq> g \<or> n \<le> j")
    case True
    with "1.prems"(2) have "w' = map_pool i pool_clear w"
      by (subst (asm) pool_dispatch_loop.simps) (auto simp: Let_def split: if_splits)
    then show ?thesis by (simp add: bus_order_pool_clear [OF R])
  next
    case False
    with "1.prems"(2) obtain x
      where x: "invoke_slots run i (slots (psignal (handler w i))) (velems ?q ! j) w = Inr x"
        and rest: "pool_dispatch_loop run i (Suc j) n g x = Inr w'"
      by (subst (asm) pool_dispatch_loop.simps) (auto simp: Let_def bindE_eq_Inr)
    have "R x w'" using "1.IH" [OF refl _ _ x "1.prems"(1) rest] False by blast
    with invoke_slots_order [OF R "1.prems"(1) x] show ?thesis by (rule bus_order_trans [OF R])
  qed
qed

lemma pool_dispatch_queued_events_order:
  "bus_order R \<Longrightarrow> invoker_forward R run \<Longrightarrow> pool_dispatch_queued_events run i w = Inr w' \<Longrightarrow> R w w'"
  by (simp add: pool_dispatch_queued_events_def Let_def pool_dispatch_loop_order)

lemma dispatch_loop_order:
  assumes R: "bus_order R"
  shows "invoker_forward R run \<Longrightarrow> dispatch_loop run j n g w = Inr w' \<Longrightarrow> R w w'"
proof (induction run j n g w rule: dispatch_loop.induct)
  case (1 run j n g w)
  show ?case
  proof (cases "vgen (event_pools w) \<noteq> g \<or> n \<le> j")
    case True
    with "1.prems"(2) have "w' = w" by (subst (asm) dispatch_loop.simps) (auto split: if_splits)
    then show ?thesis by (simp add: bus_order_refl [OF R])
  next
    case False
    show ?thesis
    proof (cases "velems (event_pools w) ! j")
      case None
      with False "1.prems" show ?thesis
        by (subst (asm) dispatch_loop.simps) (simp add: "1.IH"(1))
    next
      case (Some p)
      with False "1.prems"(2) obtain x where x: "pool_dispatch_queued_events run j w = Inr x"
          and rest: "dispatch_loop run (Suc j) n g x = Inr w'"
        by (subst (asm) dispatch_loop.simps) (auto simp: bindE_eq_Inr)
      have "R x w'" using "1.IH"(2) [OF _ _ Some x "1.prems"(1) rest] False by blast
      with pool_dispatch_queued_events_order [OF R "1.prems"(1) x] show ?thesis
        by (rule bus_order_trans [OF R])
    qed
  qed
qed

lemma dispatch_queued_events_of_order:
  assumes R: "bus_order R" and run: "invoker_forward R run"
  shows "dispatch_queued_events_of run tys w = Inr w' \<Longrightarrow> R w w'"
proof (induction tys arbitrary: w)
  case Nil
  then show ?case by (simp add: bus_order_refl [OF R])
next
  case (Cons ty tys)
  obtain i w1 where g: "get_event_handler ty w = (i, w1)" by (cases "get_event_handler ty w")
  with Cons.prems obtain x where x: "pool_dispatch_queued_events run i w1 = Inr x"
      and rest: "dispatch_queued_events_of run tys x = Inr w'"
    by (auto simp: bindE_eq_Inr)
  have "R w x" by (rule bus_order_trans [OF R bus_order_get_event_handler [OF R g]
        pool_dispatch_queued_events_order [OF R run x]])
  from bus_order_trans [OF R this Cons.IH [OF rest]] show ?case .
qed

lemma bus_call_order:
  assumes R: "bus_order R" and run: "invoker_forward R run" and c: "bus_call run a w = Inr w'"
  shows "R w w'"
  using c by (cases a) (auto simp: dispatch_queued_events_def bus_orderD [OF R]
      intro: trigger_event_order [OF R run] dispatch_loop_order [OF R run]
             dispatch_queued_events_of_order [OF R run] clear_event_queues_only_order [OF R])

lemma exec_actions_order:
  assumes R: "bus_order R" and run: "invoker_forward R run"
  shows "exec_actions run as w = Inr w' \<Longrightarrow> R w w'"
proof (induction as arbitrary: w)
  case Nil
  then show ?case by (simp add: bus_order_refl [OF R])
next
  case (Cons a as)
  from Cons.prems obtain x where x: "bus_call run a w = Inr x" and rest: "exec_actions run as x = Inr w'"
    by (auto simp: bindE_eq_Inr)
  from bus_order_trans [OF R bus_call_order [OF R run x] Cons.IH [OF rest]] show ?case .
qed

text \<open>Every program's callables, at every fuel, move forward in every bus order.\<close>

lemma run_callable_order:
  assumes R: "bus_order R"
  shows "invoker_forward R (run_callable f p)"
proof (induction f)
  case 0
  show ?case by (simp add: invoker_forward_def)
next
  case (Suc f)
  then show ?case by (auto simp: invoker_forward_def intro: exec_actions_order [OF R])
qed

lemma bus_exec_order:
  "bus_order R \<Longrightarrow> bus_exec p f a w = Inr w' \<Longrightarrow> R w w'"
  unfolding bus_exec_def by (rule bus_call_order [OF _ run_callable_order])

end
