(* ===== verification/Invariant.thy ===== *)
theory Invariant
  imports Closure
begin

text \<open>
  The well-formedness invariant \<open>world_wf\<close> of theory \<open>Bus\<close> (a dense, injective
  registry; no pool beyond the id counter; every signal with distinct connection keys
  below its counter) holds in every world the program can reach. The implication
  \<open>wf_order\<close> is a \<open>bus_order\<close>: every step of the bus that runs no callable keeps the
  invariant. Theory \<open>Closure\<close> then lifts it through re-entrant callbacks of every
  program at every fuel.
\<close>

definition wf_order :: "('ty, 'h, 'v) world \<Rightarrow> ('ty, 'h, 'v) world \<Rightarrow> bool" where
  "wf_order w w' \<longleftrightarrow> (world_wf w \<longrightarrow> world_wf w')"

text \<open>
  The worlds an application reaches: it starts from an empty bus and makes calls
  into the bus one after another, each of which returns normally.
\<close>

inductive reachable :: "('ty, 'h, 'v) program \<Rightarrow> nat \<Rightarrow> ('ty, 'h, 'v) world \<Rightarrow> bool"
  for p :: "('ty, 'h, 'v) program" and f :: nat where
  init: "reachable p f world_init"
| step: "reachable p f w \<Longrightarrow> bus_exec p f a w = Inr w' \<Longrightarrow> reachable p f w'"

lemma world_wf_calls_update [simp]: "world_wf (w\<lparr>calls := cs\<rparr>) = world_wf w"
  by (simp add: world_wf_def)

lemma enqueue_event_wf:
  assumes "world_wf w" shows "world_wf (enqueue_event ty e w)"
proof (cases "get_event_handler ty w")
  case (Pair i w1)
  with assms have "world_wf w1" by (rule get_event_handler_wf)
  then have "world_wf (map_pool i (pool_enqueue e) w1)" by (rule map_pool_wf) simp
  with Pair show ?thesis by (simp add: enqueue_event_def)
qed

lemma clear_event_queues_wf:
  "world_wf w \<Longrightarrow> world_wf (clear_event_queues w)"
  by (auto simp: world_wf_def clear_event_queues_def split: option.splits)

lemma subscribe_to_event_wf:
  assumes "world_wf w" shows "world_wf (snd (subscribe_to_event ty h w))"
proof -
  obtain i w1 where g: "get_event_handler ty w = (i, w1)" by (cases "get_event_handler ty w")
  obtain k s' where b: "signal_bind h (psignal (handler w1 i)) = (k, s')"
    by (cases "signal_bind h (psignal (handler w1 i))")
  from assms g have w1: "world_wf w1" by (rule get_event_handler_wf)
  then have "signal_wf (psignal (handler w1 i))" by (simp add: world_wf_handler [unfolded pool_wf_def])
  then have "signal_wf s'" using b by (rule signal_bind_wf)
  then have "world_wf (set_pool i (handler w1 i\<lparr>psignal := s'\<rparr>) w1)"
    by (intro set_pool_wf [OF w1]) (simp add: pool_wf_def)
  with g b show ?thesis by (simp add: subscribe_to_event_def)
qed

lemma unsubscribe_from_event_wf:
  "world_wf w \<Longrightarrow> world_wf (unsubscribe_from_event c w)"
  by (cases c) (auto intro: map_pool_wf simp: pool_wf_def signal_disconnect_wf)

lemma wf_order: "bus_order wf_order"
proof (rule bus_orderI)
  show "wf_order w (map_pool i pool_clear w)" for i and w :: "('ty, 'h, 'v) world"
    by (auto simp: wf_order_def intro: map_pool_wf)
qed (auto simp: wf_order_def log_call_def get_event_handler_wf enqueue_event_wf
       clear_event_queues_wf subscribe_to_event_wf unsubscribe_from_event_wf)


text \<open>
  C11: Every world an application reaches by calls into the bus that return normally
  is well formed, whatever its callables do and however deep they re-enter the bus:
  the registry is dense and injective, \<^verbatim>\<open>mEventPools\<close> has no slot beyond the id
  counter, and every signal's connection keys are distinct and below its counter.
\<close>

theorem reachable_wf:
  assumes "reachable p f w"
  shows "world_wf w"
  using assms
proof induction
  case init
  show ?case by (rule world_wf_init)
next
  case (step w a w')
  from bus_exec_order [OF wf_order step.hyps(2)] step.IH show ?case by (simp add: wf_order_def)
qed

theorem reachable_wf_witness:
  "\<exists>w. reachable (\<lambda>(h::nat) (e::int). [EnqueueEvent CHR ''b'' 3]) 1 w \<and>
       calls w = [(7, 0, 1)] \<and> world_wf w"
proof -
  let ?p = "\<lambda>(h::nat) (e::int). [EnqueueEvent CHR ''b'' 3]"
  let ?w1 = "snd (subscribe_to_event CHR ''a'' (7::nat) (world_init :: (char, nat, int) world))"
  let ?w2 = "projr (bus_exec ?p 1 (TriggerEvent CHR ''a'' 1) ?w1)"
  have r1: "reachable ?p 1 ?w1"
    by (rule reachable.step [OF reachable.init, where a = "SubscribeToEvent CHR ''a'' 7"])
      (simp add: bus_exec_def)
  have e: "bus_exec ?p 1 (TriggerEvent CHR ''a'' 1) ?w1 = Inr ?w2"
    by (simp add: bus_exec_def eval_simps)
  from r1 e have r2: "reachable ?p 1 ?w2" by (rule reachable.step)
  have c: "calls ?w2 = [(7, 0, 1)]" by (simp add: bus_exec_def eval_simps)
  from r2 c reachable_wf [OF r2] show ?thesis by blast
qed


text \<open>
  C12: Event types and pools correspond one to one: of two successive resolutions
  through \<^verbatim>\<open>GetEventHandler\<close> in a well-formed world, the second resolves the same
  pool as the first exactly when the two event types are the same.
\<close>

theorem get_event_handler_same_pool_iff:
  assumes wf: "world_wf w"
    and g1: "get_event_handler ty1 w = (i1, w1)" and g2: "get_event_handler ty2 w1 = (i2, w2)"
  shows "i1 = i2 \<longleftrightarrow> ty1 = ty2"
proof -
  note e1 = get_event_handler_eq(1) [OF g1] and e2 = get_event_handler_eq(1) [OF g2]
  from wf have "registry_wf (registry w)" by (simp add: world_wf_def)
  then have "registry_wf (registry w1)" using e1 by (rule get_event_id_wf)
  then have r2: "registry_wf (registry w2)" using e2 by (rule get_event_id_wf)
  from e2 get_event_id_map_of [OF e1] have m1: "map_of (static_ids (registry w2)) ty1 = Some i1"
    by (rule get_event_id_keeps)
  from e2 have m2: "map_of (static_ids (registry w2)) ty2 = Some i2" by (rule get_event_id_map_of)
  show ?thesis
  proof
    assume "i1 = i2"
    with r2 m1 m2 show "ty1 = ty2" by (auto intro: registry_wf_map_of_inj)
  next
    assume "ty1 = ty2"
    with m1 m2 show "i1 = i2" by simp
  qed
qed

theorem get_event_handler_same_pool_iff_witness:
  "(0 = (1::nat)) \<longleftrightarrow> CHR ''a'' = CHR ''b''"
proof -
  let ?w0 = "world_init :: (char, nat, int) world"
  have g1: "get_event_handler CHR ''a'' ?w0 = (0, snd (get_event_handler CHR ''a'' ?w0))"
    by (simp add: eval_simps)
  have g2: "get_event_handler CHR ''b'' (snd (get_event_handler CHR ''a'' ?w0)) =
      (1, snd (get_event_handler CHR ''b'' (snd (get_event_handler CHR ''a'' ?w0))))"
    by (simp add: eval_simps)
  from get_event_handler_same_pool_iff [OF world_wf_init g1 g2] show ?thesis .
qed

end
