(* ===== verification/Subscription.thy ===== *)
theory Subscription
  imports Bus
begin

text \<open>
  Connections: what \<^verbatim>\<open>SubscribeToEvent\<close> (lines 139--153) and
  \<^verbatim>\<open>UnsubscribeFromEvent\<close> (lines 155--158) do to the pool of the event's type.
  Subscribing appends the callable after those already bound and returns a connection
  naming the pool and a key fresh in its signal; unsubscribing with that connection
  removes exactly that callable and leaves every other pool, the registry and the
  pending events alone.
\<close>

lemma subscribe_to_event_eq:
  assumes g: "get_event_handler ty w = (i, w0)"
    and b: "signal_bind h (psignal (handler w0 i)) = (k, s')"
  shows "subscribe_to_event ty h w = (Connection i k, set_pool i (handler w0 i\<lparr>psignal := s'\<rparr>) w0)"
  using assms by (simp add: subscribe_to_event_def)

lemma pool_at_get_event_handler:
  "get_event_handler ty w = (i, w0) \<Longrightarrow> pool_at w0 i = Some (handler w0 i)"
  by (simp add: get_event_handler_eq(2) get_event_handler_pool)

lemma set_pool_set_pool [simp]: "set_pool i q (set_pool i q' w) = set_pool i q w"
  by (simp add: set_pool_def vec_set_def)

lemma unsubscribe_set_pool:
  assumes "pool_at w i = Some p"
  shows "unsubscribe_from_event (Connection i k) (set_pool i q w) =
           set_pool i (q\<lparr>psignal := signal_disconnect k (psignal q)\<rparr>) w"
proof -
  from assms have "i < length (velems (event_pools w))" by (rule pool_at_bound)
  then have "pool_at (set_pool i q w) i = Some q" by simp
  then show ?thesis by (simp add: map_pool_def)
qed

lemma subscribe_to_event_parts:
  assumes g: "get_event_handler ty w = (i, w0)" and s: "subscribe_to_event ty h w = (c, w1)"
  obtains k s' where "signal_bind h (psignal (handler w0 i)) = (k, s')" and "c = Connection i k"
    and "w1 = set_pool i (handler w0 i\<lparr>psignal := s'\<rparr>) w0"
proof -
  obtain k s' where b: "signal_bind h (psignal (handler w0 i)) = (k, s')"
    by (cases "signal_bind h (psignal (handler w0 i))")
  with s subscribe_to_event_eq [OF g b] show ?thesis by (intro that [OF b]) simp_all
qed

lemma handler_set_pool_same:
  "pool_at w i = Some p \<Longrightarrow> handler (set_pool i q w) i = q"
  by (simp add: handler_def pool_at_bound)

lemma unsubscribe_subscribe:
  assumes wf: "world_wf w" and g: "get_event_handler ty w = (i, w0)"
    and s: "subscribe_to_event ty h w = (c, w1)"
  obtains q where "unsubscribe_from_event c w1 = set_pool i q w0"
    and "slots (psignal q) = slots (psignal (handler w0 i))" and "pqueue q = pqueue (handler w0 i)"
    and "pool_at w0 i = Some (handler w0 i)"
proof -
  let ?p = "handler w0 i"
  obtain k s' where b: "signal_bind h (psignal ?p) = (k, s')" and c: "c = Connection i k"
    and w1: "w1 = set_pool i (?p\<lparr>psignal := s'\<rparr>) w0"
    using subscribe_to_event_parts [OF g s] by blast
  have p: "pool_at w0 i = Some ?p" using g by (rule pool_at_get_event_handler)
  have u: "unsubscribe_from_event c w1 = set_pool i (?p\<lparr>psignal := signal_disconnect k s'\<rparr>) w0"
    unfolding c w1 using unsubscribe_set_pool [OF p, of k "?p\<lparr>psignal := s'\<rparr>"] by simp
  from wf g have "world_wf w0" by (rule get_event_handler_wf)
  then have "signal_wf (psignal ?p)" using world_wf_handler by (simp add: pool_wf_def)
  then have "slots (signal_disconnect k s') = slots (psignal ?p)" using b by (rule signal_bind_disconnect)
  with u p show ?thesis by (intro that [of "?p\<lparr>psignal := signal_disconnect k s'\<rparr>"]) simp_all
qed

text \<open>
  C14: Unsubscribing with the connection \<^verbatim>\<open>SubscribeToEvent\<close> returned undoes the
  subscription: the pool of the event's type has the callables it had before, in the
  same order, and its pending events, every other pool and the registry are those of
  the world the subscription started from (after \<^verbatim>\<open>GetEventHandler\<close>).
\<close>

theorem unsubscribe_restores:
  assumes wf: "world_wf w" and g: "get_event_handler ty w = (i, w0)"
    and s: "subscribe_to_event ty h w = (c, w1)"
  shows "slots (psignal (handler (unsubscribe_from_event c w1) i)) = slots (psignal (handler w0 i)) \<and>
         pool_events (handler (unsubscribe_from_event c w1) i) = pool_events (handler w0 i) \<and>
         (\<forall>j. j \<noteq> i \<longrightarrow> pool_at (unsubscribe_from_event c w1) j = pool_at w0 j) \<and>
         registry (unsubscribe_from_event c w1) = registry w0"
proof -
  from unsubscribe_subscribe [OF wf g s] obtain q where u: "unsubscribe_from_event c w1 = set_pool i q w0"
    and sl: "slots (psignal q) = slots (psignal (handler w0 i))" and pq: "pqueue q = pqueue (handler w0 i)"
    and p: "pool_at w0 i = Some (handler w0 i)" by blast
  from p sl pq show ?thesis unfolding u by (simp add: handler_set_pool_same pool_events_def)
qed

theorem unsubscribe_restores_witness:
  "slots (psignal (handler (unsubscribe_from_event (Connection 0 1)
      (snd (subscribe_to_event CHR ''a'' 8 (snd (subscribe_to_event CHR ''a'' (7::nat)
        (world_init :: (char, nat, int) world)))))) 0)) = [(0, 7)]"
proof -
  let ?w = "snd (subscribe_to_event CHR ''a'' (7::nat) (world_init :: (char, nat, int) world))"
  have wf: "world_wf ?w"
    by (simp add: eval_simps world_wf_def registry_wf_def pool_wf_def signal_wf_def)
  have g: "get_event_handler CHR ''a'' ?w = (0, ?w)" by (simp add: eval_simps)
  have s: "subscribe_to_event CHR ''a'' 8 ?w = (Connection 0 1, snd (subscribe_to_event CHR ''a'' 8 ?w))"
    by (simp add: eval_simps)
  from unsubscribe_restores [OF wf g s] show ?thesis by (simp add: eval_simps)
qed

text \<open>
  C15: \<^verbatim>\<open>SubscribeToEvent\<close> binds the callable after the callables already bound
  to the event's type (so a trigger invokes them in subscription order), returns a
  connection that names the type's pool, and changes neither that pool's pending
  events nor any other pool.
\<close>

theorem subscribe_appends:
  assumes g: "get_event_handler ty w = (i, w0)" and s: "subscribe_to_event ty h w = (c, w1)"
  shows "(\<exists>k. c = Connection i k) \<and>
         bound_callables (psignal (handler w1 i)) = bound_callables (psignal (handler w i)) @ [h] \<and>
         pool_events (handler w1 i) = pool_events (handler w i) \<and>
         (\<forall>j. j \<noteq> i \<longrightarrow> pool_at w1 j = pool_at w0 j)"
proof -
  let ?p = "handler w0 i"
  obtain k s' where b: "signal_bind h (psignal ?p) = (k, s')" and c: "c = Connection i k"
    and w1: "w1 = set_pool i (?p\<lparr>psignal := s'\<rparr>) w0"
    using subscribe_to_event_parts [OF g s] by blast
  have p: "pool_at w0 i = Some ?p" using g by (rule pool_at_get_event_handler)
  have hw: "handler w0 i = handler w i" using g by (rule get_event_handler_pool)
  from b have "bound_callables s' = bound_callables (psignal ?p) @ [h]" by (rule bound_callables_bind)
  with p c hw show ?thesis unfolding w1 by (simp add: handler_set_pool_same pool_events_def)
qed

theorem subscribe_appends_witness:
  "bound_callables (psignal (handler (snd (subscribe_to_event CHR ''a'' 8
     (snd (subscribe_to_event CHR ''a'' (7::nat) (world_init :: (char, nat, int) world))))) 0)) = [7, 8]"
proof -
  let ?w = "snd (subscribe_to_event CHR ''a'' (7::nat) (world_init :: (char, nat, int) world))"
  have g: "get_event_handler CHR ''a'' ?w = (0, ?w)" by (simp add: eval_simps)
  have s: "subscribe_to_event CHR ''a'' 8 ?w = (Connection 0 1, snd (subscribe_to_event CHR ''a'' 8 ?w))"
    by (simp add: eval_simps)
  from subscribe_appends [OF g s] show ?thesis by (simp add: eval_simps bound_callables_def)
qed

end
