(* ===== verification/Delivery.thy ===== *)
theory Delivery
  imports App
begin

text \<open>
  What trigger and dispatch deliver when the callables do not call back into the bus.
  The specification's promise is written as lists of invocations:
  \<open>slot_calls i ss e\<close> is the invocation of every slot of \<open>ss\<close>, in order, with the
  event \<open>e\<close> of the type with id \<open>i\<close>; \<open>pool_deliveries i q\<close> is the delivery of
  every queued event of the pool \<open>q\<close>, oldest first, each to every bound callable;
  \<open>queued_deliveries w\<close> is that for every pool of the bus in index order. The lemmas
  compute each operation of \<open>Exec\<close> under the \<open>silent\<close> invoker and show that it
  performs exactly these invocations and then empties the queues.
\<close>

definition slot_calls :: "nat \<Rightarrow> (nat \<times> 'h) list \<Rightarrow> 'v \<Rightarrow> ('h \<times> nat \<times> 'v) list" where
  "slot_calls i ss e = map (\<lambda>(k, h). (h, i, e)) ss"

definition pool_deliveries :: "nat \<Rightarrow> ('h, 'v) pool \<Rightarrow> ('h \<times> nat \<times> 'v) list" where
  "pool_deliveries i q = concat (map (slot_calls i (slots (psignal q))) (pool_events q))"

definition queued_deliveries_from :: "nat \<Rightarrow> ('ty, 'h, 'v) world \<Rightarrow> ('h \<times> nat \<times> 'v) list" where
  "queued_deliveries_from j w =
     concat (map (\<lambda>i. case pool_at w i of None \<Rightarrow> [] | Some q \<Rightarrow> pool_deliveries i q)
                 [j..<length (velems (event_pools w))])"

definition queued_deliveries :: "('ty, 'h, 'v) world \<Rightarrow> ('h \<times> nat \<times> 'v) list" where
  "queued_deliveries w = queued_deliveries_from 0 w"

definition clear_queues_from :: "nat \<Rightarrow> ('ty, 'h, 'v) world \<Rightarrow> ('ty, 'h, 'v) world" where
  "clear_queues_from j w =
     w\<lparr>event_pools := (event_pools w)\<lparr>velems :=
        take j (velems (event_pools w)) @ map (map_option pool_clear) (drop j (velems (event_pools w)))\<rparr>\<rparr>"

declare slot_calls_def [eval_simps] pool_deliveries_def [eval_simps]
  queued_deliveries_from_def [eval_simps] queued_deliveries_def [eval_simps]
  clear_queues_from_def [eval_simps]

subsection \<open>Frame lemmas for the log\<close>

lemma handler_calls_update [simp]: "handler (w\<lparr>calls := cs\<rparr>) i = handler w i"
  by (simp add: handler_def)

lemma map_pool_calls_update [simp]:
  "map_pool i f (w\<lparr>calls := cs\<rparr>) = (map_pool i f w)\<lparr>calls := cs\<rparr>"
  by (simp add: map_pool_def set_pool_def pool_at_def split: option.split)

lemma invoke_slots_silent:
  "invoke_slots silent i ss e w = Inr (w\<lparr>calls := calls w @ slot_calls i ss e\<rparr>)"
  by (induction ss arbitrary: w) (auto simp: silent_def log_call_def slot_calls_def)

lemma pool_trigger_event_silent:
  "pool_trigger_event silent i e w =
     Inr (w\<lparr>calls := calls w @ slot_calls i (slots (psignal (handler w i))) e\<rparr>)"
  by (simp add: pool_trigger_event_def invoke_slots_silent)

lemma pool_dispatch_loop_silent:
  assumes "n = length (pool_events (handler w i))" and "g = vgen (pqueue (handler w i))"
    and "j \<le> n"
  shows "pool_dispatch_loop silent i j n g w =
    Inr ((map_pool i pool_clear w)\<lparr>calls := calls w @
      concat (map (slot_calls i (slots (psignal (handler w i)))) (drop j (pool_events (handler w i))))\<rparr>)"
  using assms
proof (induction "n - j" arbitrary: j w)
  case 0
  then show ?case by (subst pool_dispatch_loop.simps) (simp add: Let_def pool_events_def)
next
  case (Suc m)
  let ?es = "pool_events (handler w i)" and ?ss = "slots (psignal (handler w i))"
  from Suc.hyps Suc.prems have j: "j < n" by simp
  let ?w1 = "w\<lparr>calls := calls w @ slot_calls i ?ss (?es ! j)\<rparr>"
  have step: "pool_dispatch_loop silent i j n g w = pool_dispatch_loop silent i (Suc j) n g ?w1"
    using Suc.prems j by (subst pool_dispatch_loop.simps) (simp add: Let_def invoke_slots_silent pool_events_def)
  have drop: "drop j ?es = ?es ! j # drop (Suc j) ?es"
    using Suc.prems j by (simp add: Cons_nth_drop_Suc)
  have "pool_dispatch_loop silent i (Suc j) n g ?w1 =
    Inr ((map_pool i pool_clear ?w1)\<lparr>calls := calls ?w1 @
      concat (map (slot_calls i (slots (psignal (handler ?w1 i)))) (drop (Suc j) (pool_events (handler ?w1 i))))\<rparr>)"
    using Suc.hyps(2) Suc.prems j by (intro Suc.hyps(1)) simp_all
  then show ?case by (simp add: step drop)
qed

lemma pool_dispatch_queued_events_silent:
  "pool_dispatch_queued_events silent i w =
     Inr ((map_pool i pool_clear w)\<lparr>calls := calls w @ pool_deliveries i (handler w i)\<rparr>)"
  by (simp add: pool_dispatch_queued_events_def pool_dispatch_loop_silent pool_events_def
      pool_deliveries_def)

subsection \<open>The loop over all pools\<close>

lemma queued_deliveries_from_step:
  "j < length (velems (event_pools w)) \<Longrightarrow>
   queued_deliveries_from j w =
     (case pool_at w j of None \<Rightarrow> [] | Some q \<Rightarrow> pool_deliveries j q) @ queued_deliveries_from (Suc j) w"
  by (simp add: queued_deliveries_from_def upt_conv_Cons)

lemma queued_deliveries_from_end:
  "length (velems (event_pools w)) \<le> j \<Longrightarrow> queued_deliveries_from j w = []"
  by (simp add: queued_deliveries_from_def)

lemma queued_deliveries_from_map_pool:
  "queued_deliveries_from (Suc j) (map_pool j f w) = queued_deliveries_from (Suc j) w"
  unfolding queued_deliveries_from_def by (rule arg_cong [where f = concat]) simp

lemma queued_deliveries_from_calls_update [simp]:
  "queued_deliveries_from j (w\<lparr>calls := cs\<rparr>) = queued_deliveries_from j w"
  by (simp add: queued_deliveries_from_def)

lemma clear_queues_from_calls_update [simp]:
  "clear_queues_from j (w\<lparr>calls := cs\<rparr>) = (clear_queues_from j w)\<lparr>calls := cs\<rparr>"
  by (simp add: clear_queues_from_def)

lemma clear_queues_from_end:
  "length (velems (event_pools w)) \<le> j \<Longrightarrow> clear_queues_from j w = w"
  by (simp add: clear_queues_from_def)

lemma clear_queues_from_zero: "clear_queues_from 0 w = clear_event_queues w"
  by (simp add: clear_queues_from_def clear_event_queues_def vec_map_def)

lemma clear_queues_from_step:
  assumes "j < length (velems (event_pools w))"
  shows "clear_queues_from (Suc j) (map_pool j pool_clear w) = clear_queues_from j w"
proof -
  let ?xs = "velems (event_pools w)"
  have "velems (event_pools (map_pool j pool_clear w)) = ?xs[j := map_option pool_clear (?xs ! j)]"
  proof (cases "?xs ! j")
    case None
    with assms have "map_pool j pool_clear w = w" by (simp add: map_pool_def pool_at_def)
    with None show ?thesis by (metis list_update_id option.map(1))
  next
    case (Some p)
    with assms show ?thesis by (simp add: map_pool_def set_pool_def pool_at_def)
  qed
  with assms show ?thesis
    by (simp add: clear_queues_from_def take_map_drop_step)
qed

lemma dispatch_loop_silent:
  assumes "n = length (velems (event_pools w))" and "g = vgen (event_pools w)" and "j \<le> n"
  shows "dispatch_loop silent j n g w =
    Inr ((clear_queues_from j w)\<lparr>calls := calls w @ queued_deliveries_from j w\<rparr>)"
  using assms
proof (induction "n - j" arbitrary: j w)
  case 0
  then show ?case
    by (subst dispatch_loop.simps) (simp add: clear_queues_from_end queued_deliveries_from_end)
next
  case (Suc m)
  from Suc.hyps Suc.prems have j: "j < n" by simp
  let ?w1 = "map_pool j pool_clear w"
  have pj: "pool_at w j = velems (event_pools w) ! j"
    using Suc.prems j by (simp add: pool_at_def)
  show ?case
  proof (cases "velems (event_pools w) ! j")
    case None
    then have "map_pool j pool_clear w = w" by (simp add: map_pool_def pj)
    then have "clear_queues_from (Suc j) w = clear_queues_from j w"
      using clear_queues_from_step [of j w] Suc.prems j by simp
    moreover have "dispatch_loop silent (Suc j) n g w =
      Inr ((clear_queues_from (Suc j) w)\<lparr>calls := calls w @ queued_deliveries_from (Suc j) w\<rparr>)"
      by (rule Suc.hyps(1)) (use Suc.hyps(2) Suc.prems j in simp_all)
    ultimately show ?thesis using None Suc.prems j
      by (subst dispatch_loop.simps) (simp add: queued_deliveries_from_step pj)
  next
    case (Some q)
    let ?w2 = "?w1\<lparr>calls := calls w @ pool_deliveries j q\<rparr>"
    have "dispatch_loop silent j n g w = dispatch_loop silent (Suc j) n g ?w2"
      using Some Suc.prems j
      by (subst dispatch_loop.simps) (simp add: pool_dispatch_queued_events_silent handler_def pj)
    also have "\<dots> =
      Inr ((clear_queues_from (Suc j) ?w2)\<lparr>calls := calls ?w2 @ queued_deliveries_from (Suc j) ?w2\<rparr>)"
      by (rule Suc.hyps(1)) (use Suc.hyps(2) Suc.prems j in simp_all)
    also have "\<dots> = Inr ((clear_queues_from j w)\<lparr>calls := calls w @ queued_deliveries_from j w\<rparr>)"
      using Suc.prems j Some
      by (simp add: clear_queues_from_step queued_deliveries_from_map_pool
          queued_deliveries_from_step pj)
    finally show ?thesis .
  qed
qed

lemma dispatch_queued_events_silent:
  "dispatch_queued_events silent w =
     Inr ((clear_event_queues w)\<lparr>calls := calls w @ queued_deliveries w\<rparr>)"
  by (simp add: dispatch_queued_events_def dispatch_loop_silent clear_queues_from_zero
      queued_deliveries_def)

subsection \<open>Delivery through the bus\<close>

text \<open>
  C1: When the callables only observe the events they receive (they make no call into
  the bus), \<^verbatim>\<open>TriggerEvent\<close> resolves (or creates) the pool of the event's type and
  invokes every callable bound to it exactly once, in subscription order, with the
  event, before returning; it changes no pending queue (the world after it is the one
  \<^verbatim>\<open>GetEventHandler\<close> left, with the invocations logged).
\<close>

theorem trigger_event_delivers:
  assumes "observers p" and "0 < f" and "get_event_handler ty w = (i, w1)"
  shows "bus_exec p f (TriggerEvent ty e) w =
           Inr (w1\<lparr>calls := calls w @ slot_calls i (slots (psignal (handler w i))) e\<rparr>)"
  using assms
  by (simp add: bus_exec_def run_callable_observers trigger_event_def pool_trigger_event_silent
      get_event_handler_pool get_event_handler_eq(4))

theorem trigger_event_delivers_witness:
  "bus_exec (\<lambda>(h::nat) (e::int). [] :: (char, nat, int) action list) 1 (TriggerEvent CHR ''a'' 10)
     (snd (subscribe_to_event CHR ''a'' 8 (snd (subscribe_to_event CHR ''a'' 7 world_init)))) =
   Inr ((snd (subscribe_to_event CHR ''a'' 8 (snd (subscribe_to_event CHR ''a'' 7 world_init))))
     \<lparr>calls := [(7, 0, 10), (8, 0, 10)]\<rparr>)"
proof -
  let ?w = "snd (subscribe_to_event CHR ''a'' (8::nat)
    (snd (subscribe_to_event CHR ''a'' (7::nat) (world_init :: (char, nat, int) world))))"
  have g: "get_event_handler CHR ''a'' ?w = (0, ?w)" by (simp add: eval_simps)
  have o: "observers (\<lambda>(h::nat) (e::int). [] :: (char, nat, int) action list)"
    by (simp add: observers_def)
  from trigger_event_delivers [OF o _ g, of 1 10] show ?thesis by (simp add: eval_simps)
qed

text \<open>
  C2: When the callables only observe the events they receive (they make no call into
  the bus), \<^verbatim>\<open>DispatchQueuedEvents()\<close> delivers every pending event of every pool,
  pools in ascending type id, events oldest first, each to every callable bound to its
  type in subscription order, and then every queue is empty: the result is
  \<^verbatim>\<open>ClearEventQueues()\<close> of the world it started from, with the deliveries logged.
  (Callables that enqueue into the queue being dispatched are the subject of theory
  \<open>Reentrancy\<close>.)
\<close>

theorem dispatch_queued_events_delivers:
  assumes "observers p" and "0 < f"
  shows "bus_exec p f DispatchQueuedEvents w =
           Inr ((clear_event_queues w)\<lparr>calls := calls w @ queued_deliveries w\<rparr>)"
  using assms by (simp add: bus_exec_def run_callable_observers dispatch_queued_events_silent)

theorem dispatch_queued_events_delivers_witness:
  "bus_exec (\<lambda>(h::nat) (e::int). [] :: (char, nat, int) action list) 1 DispatchQueuedEvents
     (enqueue_event CHR ''a'' 7 (enqueue_event CHR ''a'' 5 (snd (subscribe_to_event CHR ''a'' 7 world_init)))) =
   Inr (clear_event_queues
     (enqueue_event CHR ''a'' 7 (enqueue_event CHR ''a'' 5 (snd (subscribe_to_event CHR ''a'' 7 world_init))))
       \<lparr>calls := [(7, 0, 5), (7, 0, 7)]\<rparr>)"
proof -
  have o: "observers (\<lambda>(h::nat) (e::int). [] :: (char, nat, int) action list)"
    by (simp add: observers_def)
  from dispatch_queued_events_delivers [OF o, of 1] show ?thesis by (simp add: eval_simps)
qed

end
