(* ===== verification/Refinement.thy ===== *)
theory Refinement
  imports Invariant Subscription Delivery
begin

text \<open>
  The specification's view of the bus (section 3 of the specification): for each event
  type, the callables bound to it in subscription order and its pending queue. Ids,
  the pool vector and the connection keys are implementation detail. \<open>abs_bus w\<close>
  reads that view off a world: a type the registry has not seen has no callables and
  no events. \<open>aop\<close> are the calls whose effect the view determines (all but
  \<^verbatim>\<open>UnsubscribeFromEvent\<close>, whose connection names a pool and a key, not a type,
  and the variadic \<^verbatim>\<open>DispatchQueuedEvents<Event...>()\<close>, which cannot be instantiated),
  \<open>aop_action\<close> their concrete member function, and \<open>a_step\<close> the abstract
  operation the specification describes. The refinement theorem: with callables that
  only observe, every sequence of such calls moves the view of a well-formed bus as
  the abstract operations say.
\<close>

type_synonym ('ty, 'h, 'v) abus = "'ty \<Rightarrow> 'h list \<times> 'v list"

definition abs_bus :: "('ty, 'h, 'v) world \<Rightarrow> ('ty, 'h, 'v) abus" where
  "abs_bus w ty =
     (case map_of (static_ids (registry w)) ty of
        None \<Rightarrow> ([], [])
      | Some i \<Rightarrow> (bound_callables (psignal (handler w i)), pool_events (handler w i)))"

datatype ('ty, 'h, 'v) aop =
    ATrigger 'ty 'v
  | AEnqueue 'ty 'v
  | ADispatch
  | AClear
  | AClearOf "'ty list"
  | ASubscribe 'ty 'h

fun aop_action :: "('ty, 'h, 'v) aop \<Rightarrow> ('ty, 'h, 'v) action" where
  "aop_action (ATrigger ty e) = TriggerEvent ty e"
| "aop_action (AEnqueue ty e) = EnqueueEvent ty e"
| "aop_action ADispatch = DispatchQueuedEvents"
| "aop_action AClear = ClearEventQueues"
| "aop_action (AClearOf tys) = ClearEventQueuesOf tys"
| "aop_action (ASubscribe ty h) = SubscribeToEvent ty h"

definition a_clear_only :: "'ty list \<Rightarrow> ('ty, 'h, 'v) abus \<Rightarrow> ('ty, 'h, 'v) abus" where
  "a_clear_only tys A = (\<lambda>ty. if ty \<in> set tys then (fst (A ty), []) else A ty)"

fun a_step :: "('ty, 'h, 'v) aop \<Rightarrow> ('ty, 'h, 'v) abus \<Rightarrow> ('ty, 'h, 'v) abus" where
  "a_step (ATrigger ty e) A = A"
| "a_step (AEnqueue ty e) A = A(ty := (fst (A ty), snd (A ty) @ [e]))"
| "a_step ADispatch A = (\<lambda>ty. (fst (A ty), []))"
| "a_step AClear A = (\<lambda>ty. (fst (A ty), []))"
| "a_step (AClearOf tys) A = a_clear_only tys A"
| "a_step (ASubscribe ty h) A = A(ty := (fst (A ty) @ [h], snd (A ty)))"

subsection \<open>Frame lemmas\<close>

lemma abs_bus_calls_update [simp]: "abs_bus (w\<lparr>calls := cs\<rparr>) = abs_bus w"
  by (simp add: abs_bus_def fun_eq_iff split: option.split)

lemma bound_callables_pool_new [simp]: "bound_callables (psignal pool_new) = []"
  by (simp add: pool_new_def signal_empty_def bound_callables_def)

lemma world_wf_map_of_inj:
  "world_wf w \<Longrightarrow> map_of (static_ids (registry w)) ty = Some i \<Longrightarrow>
   map_of (static_ids (registry w)) ty' = Some i \<Longrightarrow> ty' = ty"
  by (auto simp: world_wf_def dest: registry_wf_map_of_inj)

text \<open>Changing the pool of a type changes the view of that type only.\<close>

lemma abs_bus_set_pool:
  assumes wf: "world_wf w" and m: "map_of (static_ids (registry w)) ty = Some i"
    and p: "pool_at w i = Some q"
  shows "abs_bus (set_pool i q' w) =
           (abs_bus w)(ty := (bound_callables (psignal q'), pool_events q'))"
proof
  fix ty'
  from p have b: "i < length (velems (event_pools w))" by (rule pool_at_bound)
  show "abs_bus (set_pool i q' w) ty' =
          ((abs_bus w)(ty := (bound_callables (psignal q'), pool_events q'))) ty'"
  proof (cases "ty' = ty")
    case True
    with m b show ?thesis by (simp add: abs_bus_def handler_def)
  next
    case False
    show ?thesis
    proof (cases "map_of (static_ids (registry w)) ty'")
      case (Some j)
      with False wf m have "j \<noteq> i" by (auto dest: world_wf_map_of_inj)
      with Some False show ?thesis by (simp add: abs_bus_def handler_def)
    qed (simp add: abs_bus_def False)
  qed
qed

lemma abs_bus_map_pool:
  assumes "world_wf w" and "map_of (static_ids (registry w)) ty = Some i"
    and "pool_at w i = Some q"
  shows "abs_bus (map_pool i f w) =
           (abs_bus w)(ty := (bound_callables (psignal (f q)), pool_events (f q)))"
  using assms by (simp add: map_pool_def abs_bus_set_pool)

text \<open>
  \<^verbatim>\<open>GetEventHandler\<close> does not change the view: the pool it creates for a new
  type is empty, exactly as the view of a type the registry has not seen.
\<close>

lemma handler_get_event_handler:
  "get_event_handler ty w = (i, w1) \<Longrightarrow> handler w1 j = handler w j"
  by (cases "j = i") (simp add: get_event_handler_pool, simp add: handler_def get_event_handler_eq(3))

lemma abs_bus_get_event_handler:
  assumes wf: "world_wf w" and g: "get_event_handler ty w = (i, w1)"
  shows "abs_bus w1 = abs_bus w"
proof
  fix ty'
  note e = get_event_handler_eq(1) [OF g] and h = handler_get_event_handler [OF g]
  show "abs_bus w1 ty' = abs_bus w ty'"
  proof (cases "map_of (static_ids (registry w)) ty")
    case (Some i0)
    with e have "registry w1 = registry w" by (simp add: get_event_id_known)
    then show ?thesis by (simp add: abs_bus_def h split: option.split)
  next
    case None
    from e [symmetric] get_event_id_fresh [OF None] have i: "i = unique_id (registry w)"
      and "registry w1 = (registry w)\<lparr>unique_id := Suc (unique_id (registry w)),
             static_ids := static_ids (registry w) @ [(ty, unique_id (registry w))]\<rparr>"
      by simp_all
    then have r: "static_ids (registry w1) = static_ids (registry w) @ [(ty, i)]" by simp
    from wf have "pool_at w i = None" by (simp add: world_wf_def pool_at_def i)
    then have hi: "handler w i = pool_new" by (simp add: handler_def)
    with None show ?thesis
      by (cases "ty' = ty") (simp_all add: abs_bus_def r map_of_append map_add_def h
          split: option.split)
  qed
qed

text \<open>Replacing the pool a resolution returned replaces the view of its type.\<close>

lemma abs_bus_resolved:
  assumes wf: "world_wf w" and g: "get_event_handler ty w = (i, w1)"
  shows "abs_bus (set_pool i q' w1) = (abs_bus w)(ty := (bound_callables (psignal q'), pool_events q'))"
    and "abs_bus w ty = (bound_callables (psignal (handler w1 i)), pool_events (handler w1 i))"
proof -
  from wf g have wf1: "world_wf w1" by (rule get_event_handler_wf)
  have m: "map_of (static_ids (registry w1)) ty = Some i"
    using get_event_handler_eq(1) [OF g] by (rule get_event_id_map_of)
  have p: "pool_at w1 i = Some (handler w1 i)" using g by (rule pool_at_get_event_handler)
  show "abs_bus (set_pool i q' w1) = (abs_bus w)(ty := (bound_callables (psignal q'), pool_events q'))"
    using abs_bus_set_pool [OF wf1 m p] abs_bus_get_event_handler [OF wf g] by simp
  from m have "abs_bus w1 ty = (bound_callables (psignal (handler w1 i)), pool_events (handler w1 i))"
    by (simp add: abs_bus_def)
  with abs_bus_get_event_handler [OF wf g] show
    "abs_bus w ty = (bound_callables (psignal (handler w1 i)), pool_events (handler w1 i))" by simp
qed

lemma map_pool_resolved:
  "get_event_handler ty w = (i, w1) \<Longrightarrow> map_pool i f w1 = set_pool i (f (handler w1 i)) w1"
  by (simp add: map_pool_def pool_at_get_event_handler)

lemma abs_bus_clear_resolved:
  assumes wf: "world_wf w" and g: "get_event_handler ty w = (i, w1)"
  shows "abs_bus (map_pool i pool_clear w1) = (abs_bus w)(ty := (fst (abs_bus w ty), []))"
  using abs_bus_resolved [OF wf g] by (simp add: map_pool_resolved [OF g] bound_callables_def)

lemma world_wf_clear_resolved:
  "world_wf w \<Longrightarrow> get_event_handler ty w = (i, w1) \<Longrightarrow> world_wf (map_pool i pool_clear w1)"
  by (blast intro: map_pool_wf get_event_handler_wf pool_wf_clear [THEN iffD2])

lemma a_clear_only_Cons:
  "a_clear_only (ty # tys) A = a_clear_only tys (A(ty := (fst (A ty), [])))"
  by (simp add: a_clear_only_def fun_eq_iff)

subsection \<open>The operations refine their abstract counterparts\<close>

lemma enqueue_event_refines:
  assumes wf: "world_wf w"
  shows "abs_bus (enqueue_event ty e w) = a_step (AEnqueue ty e) (abs_bus w)"
proof -
  obtain i w1 where g: "get_event_handler ty w = (i, w1)" by (cases "get_event_handler ty w")
  then have "enqueue_event ty e w = set_pool i (pool_enqueue e (handler w1 i)) w1"
    by (simp add: enqueue_event_def map_pool_resolved)
  with abs_bus_resolved [OF wf g] show ?thesis by simp
qed

lemma subscribe_to_event_refines:
  assumes wf: "world_wf w"
  shows "abs_bus (snd (subscribe_to_event ty h w)) = a_step (ASubscribe ty h) (abs_bus w)"
proof -
  obtain i w1 where g: "get_event_handler ty w = (i, w1)" by (cases "get_event_handler ty w")
  obtain k s' where b: "signal_bind h (psignal (handler w1 i)) = (k, s')"
    by (cases "signal_bind h (psignal (handler w1 i))")
  from b have "bound_callables s' = bound_callables (psignal (handler w1 i)) @ [h]"
    by (rule bound_callables_bind)
  with abs_bus_resolved [OF wf g] subscribe_to_event_eq [OF g b] show ?thesis
    by (simp add: pool_events_def)
qed

lemma clear_event_queues_refines:
  "abs_bus (clear_event_queues w) = a_step AClear (abs_bus w)"
proof
  fix ty
  have "handler (clear_event_queues w) i =
      (case pool_at w i of None \<Rightarrow> pool_new | Some q \<Rightarrow> pool_clear q)" for i
    by (simp add: handler_def pool_at_def clear_event_queues_def split: option.split)
  then show "abs_bus (clear_event_queues w) ty = a_step AClear (abs_bus w) ty"
    by (simp add: abs_bus_def clear_event_queues_def handler_def bound_callables_def
        split: option.split)
qed

lemma clear_event_queues_only_refines:
  "world_wf w \<Longrightarrow> abs_bus (clear_event_queues_only tys w) = a_clear_only tys (abs_bus w) \<and>
     world_wf (clear_event_queues_only tys w)"
proof (induction tys arbitrary: w)
  case Nil
  then show ?case by (simp add: a_clear_only_def)
next
  case (Cons ty tys)
  obtain i w1 where g: "get_event_handler ty w = (i, w1)" by (cases "get_event_handler ty w")
  from Cons.IH [OF world_wf_clear_resolved [OF Cons.prems g]] g
    abs_bus_clear_resolved [OF Cons.prems g]
  show ?case by (simp add: a_clear_only_Cons fun_upd_def)
qed

text \<open>
  One call, with callables that only observe: it returns, keeps the invariant, and
  moves the view as the abstract operation does.
\<close>

lemma aop_action_refines:
  assumes wf: "world_wf w"
  shows "\<exists>w'. bus_call silent (aop_action op) w = Inr w' \<and>
           abs_bus w' = a_step op (abs_bus w) \<and> world_wf w'"
proof (cases op)
  case (ATrigger ty e)
  obtain i w1 where g: "get_event_handler ty w = (i, w1)" by (cases "get_event_handler ty w")
  with wf ATrigger show ?thesis
    by (simp add: trigger_event_def pool_trigger_event_silent abs_bus_get_event_handler
        get_event_handler_wf)
next
  case (AEnqueue ty e)
  with wf show ?thesis by (simp add: enqueue_event_refines enqueue_event_wf)
next
  case ADispatch
  with wf show ?thesis
    by (simp add: dispatch_queued_events_silent clear_event_queues_refines clear_event_queues_wf)
next
  case AClear
  with wf show ?thesis by (simp add: clear_event_queues_refines clear_event_queues_wf)
next
  case (AClearOf tys)
  with clear_event_queues_only_refines [OF wf] show ?thesis by simp
next
  case (ASubscribe ty h)
  with wf show ?thesis by (simp add: subscribe_to_event_refines subscribe_to_event_wf)
qed

text \<open>
  C17: Refinement of the specification's per-type view. With callables that only
  observe, every sequence of calls other than \<^verbatim>\<open>UnsubscribeFromEvent\<close> and the
  variadic \<^verbatim>\<open>DispatchQueuedEvents<Event...>()\<close> on a
  well-formed bus returns normally, and afterwards each type's bound callables and
  pending queue are what the abstract operations computed from the view before:
  trigger changes neither, enqueue appends to the type's queue, subscribe appends to
  its callables, \<^verbatim>\<open>DispatchQueuedEvents()\<close> and the clears (of all types or of the
  named ones) empty the queues and keep the callables.
\<close>

theorem observers_refine_abstract:
  assumes "observers p" and "0 < f" and "world_wf w"
  shows "\<exists>w'. exec_actions (run_callable f p) (map aop_action ops) w = Inr w' \<and>
           abs_bus w' = fold a_step ops (abs_bus w)"
proof -
  from assms(1,2) have r: "run_callable f p = silent" by (rule run_callable_observers)
  from assms(3) show ?thesis unfolding r
  proof (induction ops arbitrary: w)
    case Nil
    then show ?case by simp
  next
    case (Cons op ops)
    from aop_action_refines [OF Cons.prems] obtain w1
      where "bus_call silent (aop_action op) w = Inr w1" and "abs_bus w1 = a_step op (abs_bus w)"
        and "world_wf w1" by blast
    with Cons.IH [of w1] show ?case by simp
  qed
qed

theorem observers_refine_abstract_witness:
  "\<exists>w'. exec_actions (run_callable 1 (\<lambda>(h::nat) (e::int). []))
          (map aop_action [ASubscribe ''Damage'' 0, ATrigger ''Damage'' 10,
                           AEnqueue ''Damage'' 5, AEnqueue ''Damage'' 7]) world_init = Inr w' \<and>
        abs_bus w' ''Damage'' = ([0], [5, 7])"
proof -
  have o: "observers (\<lambda>(h::nat) (e::int). [] :: (char list, nat, int) action list)"
    by (simp add: observers_def)
  have a: "abs_bus (world_init :: (char list, nat, int) world) = (\<lambda>ty. ([], []))"
    by (simp add: abs_bus_def fun_eq_iff eval_simps)
  let ?ops = "[ASubscribe ''Damage'' 0, ATrigger ''Damage'' 10, AEnqueue ''Damage'' 5,
               AEnqueue ''Damage'' (7::int)] :: (char list, nat, int) aop list"
  obtain w' where e: "exec_actions (run_callable 1 (\<lambda>(h::nat) (e::int). [])) (map aop_action ?ops)
        world_init = Inr w'" and v: "abs_bus w' = fold a_step ?ops (abs_bus world_init)"
    using observers_refine_abstract [OF o _ world_wf_init, of 1 ?ops] by auto
  from v have "abs_bus w' ''Damage'' = ([0], [5, 7])" by (simp add: a)
  with e show ?thesis by blast
qed

end
