(* ===== verification/Generations.thy ===== *)
theory Generations
  imports Closure
begin

text \<open>
  Iterator generations only grow. \<open>gen_le w w'\<close> says that \<open>w'\<close> has every pool of
  \<open>w\<close>, each queue at the same or a later generation, and \<^verbatim>\<open>mEventPools\<close> at the same
  or a later generation. Every operation of the bus, and every run of the application's
  callables, moves forward in this order. The consequence used in \<open>Reentrancy\<close>: once
  a callable has invalidated the iterators of a loop that is still running, nothing it
  or anyone else does afterwards can make them valid again.
\<close>

definition gen_le :: "('ty, 'h, 'v) world \<Rightarrow> ('ty, 'h, 'v) world \<Rightarrow> bool" where
  "gen_le w w' \<longleftrightarrow>
     vgen (event_pools w) \<le> vgen (event_pools w') \<and>
     (\<forall>i < length (velems (event_pools w)). \<forall>p. pool_at w i = Some p \<longrightarrow>
        (\<exists>p'. pool_at w' i = Some p' \<and> vgen (pqueue p) \<le> vgen (pqueue p')))"

abbreviation gen_mono :: "('ty, 'h, 'v) invoker \<Rightarrow> bool" where
  "gen_mono \<equiv> invoker_forward gen_le"

lemma gen_le_pool:
  "gen_le w w' \<Longrightarrow> pool_at w i = Some p \<Longrightarrow>
   \<exists>p'. pool_at w' i = Some p' \<and> vgen (pqueue p) \<le> vgen (pqueue p')"
  by (auto simp: gen_le_def dest: pool_at_bound)

lemma gen_le_intro:
  assumes "vgen (event_pools w) \<le> vgen (event_pools w')"
    and "\<And>i p. pool_at w i = Some p \<Longrightarrow> \<exists>p'. pool_at w' i = Some p' \<and> vgen (pqueue p) \<le> vgen (pqueue p')"
  shows "gen_le w w'"
  using assms by (simp add: gen_le_def)

lemma gen_le_refl [simp]: "gen_le w w"
  by (rule gen_le_intro) auto

lemma gen_le_trans [trans]: "gen_le w1 w2 \<Longrightarrow> gen_le w2 w3 \<Longrightarrow> gen_le w1 w3"
proof (rule gen_le_intro)
  assume a: "gen_le w1 w2" and b: "gen_le w2 w3"
  then show "vgen (event_pools w1) \<le> vgen (event_pools w3)" by (simp add: gen_le_def)
  fix i p assume "pool_at w1 i = Some p"
  with a obtain p2 where p2: "pool_at w2 i = Some p2" "vgen (pqueue p) \<le> vgen (pqueue p2)"
    by (blast dest: gen_le_pool)
  with b obtain p3 where "pool_at w3 i = Some p3" "vgen (pqueue p2) \<le> vgen (pqueue p3)"
    by (blast dest: gen_le_pool)
  with p2 show "\<exists>p'. pool_at w3 i = Some p' \<and> vgen (pqueue p) \<le> vgen (pqueue p')" by auto
qed

lemma gen_le_calls_update: "gen_le w (w\<lparr>calls := cs\<rparr>)"
  by (rule gen_le_intro) simp_all

lemma gen_le_log_call: "gen_le w (log_call h i e w)"
  by (simp add: log_call_def gen_le_calls_update)

lemma gen_le_map_pool:
  "(\<And>p. vgen (pqueue p) \<le> vgen (pqueue (f p))) \<Longrightarrow> gen_le w (map_pool i f w)"
  by (rule gen_le_intro) auto

lemma gen_le_set_pool:
  "pool_at w i = Some p \<Longrightarrow> vgen (pqueue p) \<le> vgen (pqueue q) \<Longrightarrow> gen_le w (set_pool i q w)"
  by (rule gen_le_intro) (auto dest: pool_at_bound)

lemma gen_le_get_event_handler:
  assumes "get_event_handler ty w = (i, w')"
  shows "gen_le w w'"
proof (rule gen_le_intro)
  note eq = get_event_handler_eq [OF assms]
  show "vgen (event_pools w) \<le> vgen (event_pools w')" by (simp add: eq(6))
  fix j p assume "pool_at w j = Some p"
  with eq(2,3) show "\<exists>p'. pool_at w' j = Some p' \<and> vgen (pqueue p) \<le> vgen (pqueue p')"
    by (cases "j = i") (auto simp: handler_Some)
qed

lemma gen_le_enqueue_event: "gen_le w (enqueue_event ty e w)"
  by (auto simp: enqueue_event_def split: prod.split
      intro: gen_le_trans [OF gen_le_get_event_handler gen_le_map_pool])

lemma gen_le_clear_event_queues: "gen_le w (clear_event_queues w)"
  by (rule gen_le_intro) (auto simp: clear_event_queues_def pool_at_def split: if_splits)

lemma gen_le_subscribe_to_event: "gen_le w (snd (subscribe_to_event ty h w))"
proof (cases "get_event_handler ty w")
  case (Pair i w1)
  have "pool_at w1 i = Some (handler w1 i)"
    using get_event_handler_eq(2) [OF Pair] by (simp add: handler_Some)
  then have "gen_le w1 (set_pool i (handler w1 i\<lparr>psignal := s'\<rparr>) w1)" for s'
    by (rule gen_le_set_pool) simp
  with Pair show ?thesis
    by (auto simp: subscribe_to_event_def Let_def split: prod.split
        intro: gen_le_trans [OF gen_le_get_event_handler])
qed

lemma gen_le_unsubscribe_from_event: "gen_le w (unsubscribe_from_event c w)"
  by (cases c) (simp add: gen_le_map_pool)


subsection \<open>Operations that invoke callables\<close>

lemma gen_order: "bus_order gen_le"
proof (rule bus_orderI)
  show "gen_le w (map_pool i pool_clear w)" for i and w :: "('ty, 'h, 'v) world"
    by (rule gen_le_map_pool) simp
qed (fact gen_le_refl gen_le_log_call gen_le_enqueue_event gen_le_clear_event_queues
       gen_le_subscribe_to_event gen_le_unsubscribe_from_event
   | erule gen_le_trans, assumption | erule gen_le_get_event_handler)+

lemmas gen_monoD = invoker_forwardD [of gen_le]
lemmas gen_le_clear_event_queues_only = clear_event_queues_only_order [OF gen_order]
lemmas invoke_slots_gen = invoke_slots_order [OF gen_order]
lemmas pool_dispatch_loop_gen = pool_dispatch_loop_order [OF gen_order]
lemmas pool_dispatch_queued_events_gen = pool_dispatch_queued_events_order [OF gen_order]
lemmas dispatch_queued_events_of_gen = dispatch_queued_events_of_order [OF gen_order]
lemmas exec_actions_gen = exec_actions_order [OF gen_order]
lemmas run_callable_gen_mono = run_callable_order [OF gen_order]

end
