(* ===== verification/Reentrancy.thy ===== *)
theory Reentrancy
  imports Generations Delivery
begin

text \<open>
  Callables that call back into the bus while it dispatches. The specification allows
  re-entrant calls and promises (section 4.2) that events a callable enqueues during
  \<^verbatim>\<open>DispatchQueuedEvents\<close> are delivered by the next dispatch. The code iterates
  \<^verbatim>\<open>mEventQueue\<close> with a range-for loop while the callable runs, and
  \<^verbatim>\<open>push_back\<close> on it invalidates the loop's cached end iterator: the C++ standard
  leaves the rest of the loop undefined (in practice the new event is either silently
  discarded by the \<^verbatim>\<open>ClearEventQueue\<close> that follows, or read from freed memory after a
  reallocation). The theorems here show that such a dispatch never returns normally in
  the model, whatever the callables do afterwards, and that the same holds for the
  outer loop over \<^verbatim>\<open>mEventPools\<close> when a callable makes the bus create the pool of a
  type it has never seen.
\<close>

text \<open>
  \<open>resolves_first a\<close> is the event type whose pool the bus call \<open>a\<close> resolves
  (\<^verbatim>\<open>GetEventHandler\<close>) before it does anything else, if any. The variadic
  \<^verbatim>\<open>DispatchQueuedEvents<Event...>()\<close> is listed with the type its fold would resolve
  first; since it cannot be instantiated, it never returns normally either.
\<close>

fun resolves_first :: "('ty, 'h, 'v) action \<Rightarrow> 'ty option" where
  "resolves_first (TriggerEvent ty e) = Some ty"
| "resolves_first (EnqueueEvent ty e) = Some ty"
| "resolves_first (SubscribeToEvent ty h) = Some ty"
| "resolves_first (DispatchQueuedEventsOf (ty # tys)) = Some ty"
| "resolves_first (ClearEventQueuesOf (ty # tys)) = Some ty"
| "resolves_first a = None"

subsection \<open>Helper facts\<close>

lemma get_event_handler_existing:
  assumes "map_of (static_ids (registry w)) ty = Some i" and "pool_at w i = Some q"
  shows "get_event_handler ty w = (i, w)"
proof -
  from assms(1) have "get_event_id ty (registry w) = (i, registry w)" by (rule get_event_id_known)
  moreover from assms(2) have "i < length (velems (event_pools w))" "velems (event_pools w) ! i = Some q"
    by (simp_all add: pool_at_def split: if_splits)
  ultimately show ?thesis by (simp add: get_event_handler_def Let_def)
qed

lemma pool_at_enqueue_existing:
  "map_of (static_ids (registry w)) ty = Some i \<Longrightarrow> pool_at w i = Some q \<Longrightarrow>
   pool_at (enqueue_event ty e w) i = Some (pool_enqueue e q)"
  by (simp add: enqueue_event_def get_event_handler_existing)

lemma pool_dispatch_loop_stale:
  "vgen (pqueue (handler w i)) \<noteq> g \<Longrightarrow> pool_dispatch_loop run i j n g w = Inl IteratorInvalidated"
  by (subst pool_dispatch_loop.simps) (simp add: Let_def)

lemma pool_dispatch_queued_events_first:
  assumes "slots (psignal (handler w i)) = (k, h) # ss" and "pool_events (handler w i) = e # es"
  shows "pool_dispatch_queued_events run i w =
    bindE (invoke_slots run i ((k, h) # ss) e w)
      (pool_dispatch_loop run i 1 (Suc (length es)) (vgen (pqueue (handler w i))))"
  using assms
  by (simp add: pool_dispatch_queued_events_def pool_events_def pool_dispatch_loop.simps [of _ _ 0])

text \<open>
  The core of the argument: if the first callable invoked for the first queued event
  leaves the queue at a later generation, the dispatch of the pool cannot return
  normally, because generations never go back (\<open>gen_le\<close>).
\<close>

lemma pool_dispatch_first_call_stale:
  assumes first: "slots (psignal (handler w i)) = (k, h) # ss" "pool_events (handler w i) = e # es"
    and pool: "pool_at w i = Some q"
    and bump: "\<And>y. run h e (log_call h i e w) = Inr y \<Longrightarrow> vgen (pqueue q) < vgen (pqueue (handler y i))"
    and mono: "gen_mono run"
  shows "\<exists>err. pool_dispatch_queued_events run i w = Inl err"
proof (cases "invoke_slots run i ((k, h) # ss) e w")
  case (Inl err)
  with first show ?thesis by (simp add: pool_dispatch_queued_events_first)
next
  case (Inr x)
  then obtain y where y: "run h e (log_call h i e w) = Inr y" and rest: "invoke_slots run i ss e y = Inr x"
    by (auto simp: bindE_eq_Inr)
  have "pool_at y i = Some (handler y i)"
  proof -
    from gen_le_log_call [of w h i e] pool have "pool_at (log_call h i e w) i = Some q"
      by (simp add: log_call_def)
    with mono y obtain p' where "pool_at y i = Some p'" by (blast dest: gen_monoD gen_le_pool)
    then show ?thesis by (simp add: handler_Some)
  qed
  with mono rest obtain p'' where px: "pool_at x i = Some p''"
      and le: "vgen (pqueue (handler y i)) \<le> vgen (pqueue p'')"
    by (blast dest: invoke_slots_gen gen_le_pool)
  from pool have "handler w i = q" by (rule handler_Some)
  with bump [OF y] le px have "vgen (pqueue (handler x i)) \<noteq> vgen (pqueue (handler w i))"
    by (simp add: handler_Some)
  with first Inr show ?thesis
    by (simp add: pool_dispatch_queued_events_first pool_dispatch_loop_stale)
qed


lemma pool_dispatch_queued_events_empty:
  "pool_events (handler w i) = [] \<Longrightarrow> pool_dispatch_queued_events run i w = Inr (map_pool i pool_clear w)"
  by (simp add: pool_dispatch_queued_events_def pool_events_def pool_dispatch_loop.simps [of _ _ 0])

text \<open>The loop over \<^verbatim>\<open>mEventPools\<close> passes pools with empty queues without invoking anything.\<close>

lemma dispatch_loop_skip_empty:
  assumes "n = length (velems (event_pools w))" and "g = vgen (event_pools w)" and "j \<le> i" and "i < n"
    and "\<forall>l. j \<le> l \<and> l < i \<longrightarrow> pool_events (handler w l) = []"
  shows "\<exists>w''. dispatch_loop run j n g w = dispatch_loop run i n g w'' \<and> pool_at w'' i = pool_at w i \<and>
     registry w'' = registry w \<and> vgen (event_pools w'') = g \<and> length (velems (event_pools w'')) = n"
  using assms
proof (induction "i - j" arbitrary: j w)
  case 0
  then show ?case by auto
next
  case (Suc m)
  then have j: "j < i" by simp
  have pj: "pool_at w j = velems (event_pools w) ! j"
    using Suc.prems j by (simp add: pool_at_def)
  obtain w1 where step: "dispatch_loop run j n g w = dispatch_loop run (Suc j) n g w1"
    and w1: "\<forall>l. l \<noteq> j \<longrightarrow> pool_at w1 l = pool_at w l" "registry w1 = registry w"
      "vgen (event_pools w1) = g" "length (velems (event_pools w1)) = n"
  proof (cases "velems (event_pools w) ! j")
    case None
    with Suc.prems j have "dispatch_loop run j n g w = dispatch_loop run (Suc j) n g w"
      by (subst dispatch_loop.simps) simp
    with Suc.prems show ?thesis using that by auto
  next
    case (Some q)
    with Suc.prems j pj have "pool_events (handler w j) = []" by simp
    then have "dispatch_loop run j n g w = dispatch_loop run (Suc j) n g (map_pool j pool_clear w)"
      using Suc.prems j Some by (subst dispatch_loop.simps) (simp add: pool_dispatch_queued_events_empty)
    with Suc.prems show ?thesis using that by auto
  qed
  have pref: "\<forall>l. Suc j \<le> l \<and> l < i \<longrightarrow> pool_events (handler w1 l) = []"
    using Suc.prems(5) w1(1) by (auto simp: handler_def)
  have "\<exists>w''. dispatch_loop run (Suc j) n g w1 = dispatch_loop run i n g w'' \<and>
      pool_at w'' i = pool_at w1 i \<and> registry w'' = registry w1 \<and> vgen (event_pools w'') = g \<and>
      length (velems (event_pools w'')) = n"
    by (rule Suc.hyps(1)) (use Suc.hyps(2) Suc.prems j w1 pref in auto)
  with step w1 j show ?case by auto
qed

lemma pool_dispatch_reentrant_enqueue:
  assumes reg: "map_of (static_ids (registry w)) ty = Some i" and pool: "pool_at w i = Some q"
    and first: "slots (psignal q) = (k, h) # ss" "pool_events q = e # es"
    and body: "p h e = EnqueueEvent ty e' # as"
  shows "\<exists>err. pool_dispatch_queued_events (run_callable f p) i w = Inl err"
proof (rule pool_dispatch_first_call_stale [OF _ _ pool _ run_callable_gen_mono])
  from pool first show "slots (psignal (handler w i)) = (k, h) # ss" "pool_events (handler w i) = e # es"
    by (simp_all add: handler_Some)
  fix y assume y: "run_callable f p h e (log_call h i e w) = Inr y"
  then obtain f0 where f: "f = Suc f0" by (cases f) auto
  let ?w2 = "enqueue_event ty e' (log_call h i e w)"
  from reg pool have "pool_at ?w2 i = Some (pool_enqueue e' q)"
    by (simp add: pool_at_enqueue_existing log_call_def)
  moreover from y f body have "exec_actions (run_callable f0 p) as ?w2 = Inr y" by simp
  then have "gen_le ?w2 y" by (rule exec_actions_gen [OF run_callable_gen_mono])
  ultimately obtain p' where "pool_at y i = Some p'" "Suc (vgen (pqueue q)) \<le> vgen (pqueue p')"
    by (auto dest: gen_le_pool)
  then show "vgen (pqueue q) < vgen (pqueue (handler y i))" by (simp add: handler_Some)
qed

text \<open>
  The loop over \<^verbatim>\<open>mEventPools\<close> reaches the first pool with pending events
  unchanged; if dispatching that pool cannot return normally, neither can the loop.
\<close>

lemma dispatch_stale_at_first_pending:
  assumes pool: "pool_at w i = Some q" and empty: "\<forall>j<i. pool_events (handler w j) = []"
    and stale: "\<And>w''. pool_at w'' i = Some q \<Longrightarrow> registry w'' = registry w \<Longrightarrow>
       \<exists>err. pool_dispatch_queued_events run i w'' = Inl err"
  shows "\<exists>err. dispatch_queued_events run w = Inl err"
proof -
  let ?n = "length (velems (event_pools w))" and ?g = "vgen (event_pools w)"
  from pool have i: "i < ?n" by (rule pool_at_bound)
  with empty obtain w'' where skip: "dispatch_loop run 0 ?n ?g w = dispatch_loop run i ?n ?g w''"
    and w'': "pool_at w'' i = Some q" "registry w'' = registry w" "vgen (event_pools w'') = ?g"
      "length (velems (event_pools w'')) = ?n"
    using dispatch_loop_skip_empty [of ?n w ?g 0 i run] pool by auto
  from stale [OF w''(1,2)] obtain err where err: "pool_dispatch_queued_events run i w'' = Inl err" ..
  from w''(1,4) i have "velems (event_pools w'') ! i = Some q" by (simp add: pool_at_def)
  with w''(3,4) i err have "dispatch_loop run i ?n ?g w'' = Inl err"
    by (subst dispatch_loop.simps) simp
  with skip show ?thesis by (auto simp: dispatch_queued_events_def)
qed

text \<open>
  C3: \<^verbatim>\<open>DispatchQueuedEvents()\<close> never returns normally when the first callable it
  invokes enqueues an event of the type being dispatched (all pools of smaller id
  having nothing pending): the push onto \<^verbatim>\<open>mEventQueue\<close> invalidates the range-for
  over it, so the behaviour is undefined (or the stack is exhausted first), instead of
  the new event being kept for the next dispatch as the specification says.
\<close>

theorem dispatch_reentrant_enqueue_undefined:
  assumes "map_of (static_ids (registry w)) ty = Some i" and "pool_at w i = Some q"
    and "\<forall>j<i. pool_events (handler w j) = []"
    and "slots (psignal q) = (k, h) # ss" and "pool_events q = e # es"
    and "p h e = EnqueueEvent ty e' # as"
  shows "\<exists>err. bus_exec p f DispatchQueuedEvents w = Inl err"
proof -
  have "\<exists>err. dispatch_queued_events (run_callable f p) w = Inl err"
  proof (rule dispatch_stale_at_first_pending [OF assms(2,3)])
    fix w'' assume "pool_at w'' i = Some q" and "registry w'' = registry w"
    with assms(1,4-6) show "\<exists>err. pool_dispatch_queued_events (run_callable f p) i w'' = Inl err"
      using pool_dispatch_reentrant_enqueue [of w'' ty i q k h ss e es p e' as f] by auto
  qed
  then show ?thesis by (simp add: bus_exec_def)
qed


theorem dispatch_reentrant_enqueue_undefined_witness:
  "\<exists>err. bus_exec (\<lambda>(h::nat) (e::int). [EnqueueEvent CHR ''a'' 6]) 1 DispatchQueuedEvents
     (enqueue_event CHR ''a'' 5 (snd (subscribe_to_event CHR ''a'' 7 world_init))) = Inl err"
proof -
  let ?w = "enqueue_event CHR ''a'' (5::int) (snd (subscribe_to_event CHR ''a'' (7::nat) world_init))"
  have a: "map_of (static_ids (registry ?w)) CHR ''a'' = Some 0" by (simp add: eval_simps)
  have b: "pool_at ?w 0 = Some \<lparr>psignal = \<lparr>slots = [(0, 7)], next_slot = 1\<rparr>,
      pqueue = \<lparr>velems = [5], vgen = 1\<rparr>\<rparr>"
    by (simp add: eval_simps)
  show ?thesis by (rule dispatch_reentrant_enqueue_undefined [OF a b]) (simp_all add: pool_events_def)
qed


subsection \<open>A new event type during the dispatch of all pools\<close>

lemma bus_call_resolves_gen:
  assumes mono: "gen_mono run" and a: "resolves_first a = Some ty"
    and call: "bus_call run a w = Inr y" and g: "get_event_handler ty w = (i, w1)"
  shows "gen_le w1 y"
proof (cases a)
  case (TriggerEvent ty' e)
  with a call g show ?thesis
    by (auto simp: trigger_event_def pool_trigger_event_def intro: invoke_slots_gen [OF mono])
next
  case (EnqueueEvent ty' e)
  with a call g show ?thesis by (auto simp: enqueue_event_def intro: gen_le_map_pool)
next
  case (SubscribeToEvent ty' h)
  have "pool_at w1 i = Some (handler w1 i)"
    using get_event_handler_eq(2) [OF g] by (simp add: handler_Some)
  then have "gen_le w1 (set_pool i (handler w1 i\<lparr>psignal := s'\<rparr>) w1)" for s'
    by (rule gen_le_set_pool) simp
  with SubscribeToEvent a call g show ?thesis
    by (auto simp: subscribe_to_event_def Let_def split: prod.splits)
next
  case (DispatchQueuedEventsOf tys)
  with a obtain tys' where "tys = ty # tys'" by (cases tys) auto
  with DispatchQueuedEventsOf call show ?thesis by simp
next
  case (ClearEventQueuesOf tys)
  with a obtain tys' where tys: "tys = ty # tys'" by (cases tys) auto
  have "gen_le w1 (map_pool i pool_clear w1)" by (rule gen_le_map_pool) simp
  also have "gen_le \<dots> (clear_event_queues_only tys' (map_pool i pool_clear w1))"
    by (rule gen_le_clear_event_queues_only)
  finally show ?thesis using ClearEventQueuesOf tys call g by simp
qed (use a in simp_all)

lemma get_event_handler_fresh_grows:
  assumes "map_of (static_ids (registry w)) ty = None"
    and "length (velems (event_pools w)) \<le> unique_id (registry w)"
    and "get_event_handler ty w = (i, w1)"
  shows "vgen (event_pools w1) = Suc (vgen (event_pools w))"
proof -
  from get_event_handler_eq(1) [OF assms(3)] assms(1) have "i = unique_id (registry w)"
    by (simp add: get_event_id_fresh)
  with get_event_handler_eq(6) [OF assms(3)] assms(2) show ?thesis by simp
qed

text \<open>
  If the first callable of pool \<open>i\<close> starts by resolving an event type the registry
  has never seen, every normal return of the pool's dispatch leaves \<^verbatim>\<open>mEventPools\<close>
  at a later generation than the loop over it started with.
\<close>

lemma pool_dispatch_fresh_type_grows:
  assumes pool: "pool_at w i = Some q" and first: "slots (psignal q) = (k, h) # ss" "pool_events q = e # es"
    and body: "p h e = a # as" and a: "resolves_first a = Some ty"
    and fresh: "map_of (static_ids (registry w)) ty = None"
    and len: "length (velems (event_pools w)) \<le> unique_id (registry w)"
    and ret: "pool_dispatch_queued_events (run_callable f p) i w = Inr x'"
  shows "vgen (event_pools w) < vgen (event_pools x')"
proof -
  let ?run = "run_callable f p"
  from pool first have h: "slots (psignal (handler w i)) = (k, h) # ss" "pool_events (handler w i) = e # es"
    by (simp_all add: handler_Some)
  from ret h obtain x where x: "invoke_slots ?run i ((k, h) # ss) e w = Inr x"
      and loop: "pool_dispatch_loop ?run i 1 (Suc (length es)) (vgen (pqueue (handler w i))) x = Inr x'"
    by (auto simp: pool_dispatch_queued_events_first bindE_eq_Inr)
  from x obtain y where y: "?run h e (log_call h i e w) = Inr y" and rest: "invoke_slots ?run i ss e y = Inr x"
    by (auto simp: bindE_eq_Inr)
  from y obtain f0 where f: "f = Suc f0" by (cases f) auto
  with y body obtain y1 where y1: "bus_call (run_callable f0 p) a (log_call h i e w) = Inr y1"
      and y1y: "exec_actions (run_callable f0 p) as y1 = Inr y"
    by (auto simp: bindE_eq_Inr)
  obtain i' w1 where g: "get_event_handler ty (log_call h i e w) = (i', w1)"
    by (cases "get_event_handler ty (log_call h i e w)")
  from fresh len g have "vgen (event_pools w1) = Suc (vgen (event_pools w))"
    using get_event_handler_fresh_grows [of "log_call h i e w" ty i' w1] by (simp add: log_call_def)
  moreover have "gen_le w1 x'"
  proof -
    have "gen_le w1 y1" by (rule bus_call_resolves_gen [OF run_callable_gen_mono a y1 g])
    also have "gen_le y1 y" by (rule exec_actions_gen [OF run_callable_gen_mono y1y])
    also have "gen_le y x" by (rule invoke_slots_gen [OF run_callable_gen_mono rest])
    also have "gen_le x x'" by (rule pool_dispatch_loop_gen [OF run_callable_gen_mono loop])
    finally show ?thesis .
  qed
  ultimately show ?thesis by (simp add: gen_le_def)
qed

text \<open>
  C4: \<^verbatim>\<open>DispatchQueuedEvents()\<close> never returns normally when the first callable it
  invokes makes a bus call on an event type that was never used before (trigger,
  enqueue, subscribe, selective dispatch or clear): \<^verbatim>\<open>GetEventHandler\<close> resizes
  \<^verbatim>\<open>mEventPools\<close> while the range-for over it is running, which is undefined
  behaviour, although the specification permits re-entrant calls.
\<close>

theorem dispatch_new_type_undefined:
  assumes "world_wf w" and "pool_at w i = Some q" and "\<forall>j<i. pool_events (handler w j) = []"
    and "slots (psignal q) = (k, h) # ss" and "pool_events q = e # es"
    and "p h e = a # as" and "resolves_first a = Some ty"
    and "map_of (static_ids (registry w)) ty = None"
  shows "\<exists>err. bus_exec p f DispatchQueuedEvents w = Inl err"
proof -
  let ?run = "run_callable f p"
  let ?n = "length (velems (event_pools w))" and ?g = "vgen (event_pools w)"
  from assms(2) have i: "i < ?n" by (rule pool_at_bound)
  with assms(3) obtain w'' where skip: "dispatch_loop ?run 0 ?n ?g w = dispatch_loop ?run i ?n ?g w''"
    and w'': "pool_at w'' i = Some q" "registry w'' = registry w" "vgen (event_pools w'') = ?g"
      "length (velems (event_pools w'')) = ?n"
    using dispatch_loop_skip_empty [of ?n w ?g 0 i ?run] assms(2) by auto
  from assms(1) w'' have len: "length (velems (event_pools w'')) \<le> unique_id (registry w'')"
    by (simp add: world_wf_def)
  from w''(1,4) i have slot: "velems (event_pools w'') ! i = Some q" by (simp add: pool_at_def)
  have "\<exists>err. dispatch_loop ?run i ?n ?g w'' = Inl err"
  proof (cases "pool_dispatch_queued_events ?run i w''")
    case (Inl err)
    with w''(3,4) i slot show ?thesis by (subst dispatch_loop.simps) simp
  next
    case (Inr x')
    have "vgen (event_pools w'') < vgen (event_pools x')"
      using w''(1) assms(4-7) _ len Inr
      by (rule pool_dispatch_fresh_type_grows) (use assms(8) w''(2) in simp)
    with w''(3) have "?g < vgen (event_pools x')" by simp
    with w''(3,4) i slot Inr show ?thesis
      by (subst dispatch_loop.simps) (simp add: dispatch_loop.simps [of _ "Suc i"])
  qed
  with skip show ?thesis by (simp add: bus_exec_def dispatch_queued_events_def)
qed


theorem dispatch_new_type_undefined_witness:
  "\<exists>err. bus_exec (\<lambda>(h::nat) (e::int). [TriggerEvent CHR ''b'' 6]) 1 DispatchQueuedEvents
     (enqueue_event CHR ''a'' 5 (snd (subscribe_to_event CHR ''a'' 7 world_init))) = Inl err"
proof -
  let ?w = "enqueue_event CHR ''a'' (5::int) (snd (subscribe_to_event CHR ''a'' (7::nat) world_init))"
  have wf: "world_wf ?w"
    by (simp add: eval_simps world_wf_def registry_wf_def pool_wf_def signal_wf_def)
  have b: "pool_at ?w 0 = Some \<lparr>psignal = \<lparr>slots = [(0, 7)], next_slot = 1\<rparr>,
      pqueue = \<lparr>velems = [5], vgen = 1\<rparr>\<rparr>"
    by (simp add: eval_simps)
  have r: "resolves_first (TriggerEvent CHR ''b'' (6::int) :: (char, nat, int) action) = Some CHR ''b''"
    by simp
  show ?thesis by (rule dispatch_new_type_undefined [OF wf b _ _ _ _ r]) (simp_all add: eval_simps)
qed

end
