(* ===== verification/Safety.thy ===== *)
theory Safety
  imports Reentrancy
begin

text \<open>
  The re-entrancy the specification permits and the code handles (sections 5 and 8):
  a callable that triggers events of types whose pools already exist. Such a
  callable changes neither the registry nor \<^verbatim>\<open>mEventPools\<close> nor any queue
  (\<open>same_pools\<close>), so the range-for loops of \<^verbatim>\<open>DispatchQueuedEvents()\<close> keep valid
  iterators: the call can exhaust the stack, but never runs into undefined behaviour.
  \<open>triggers_only K p\<close>: every bus call the program's callables make is a trigger of a
  type in \<open>K\<close>; \<open>registered K w\<close>: every type of \<open>K\<close> has an id and a pool.
\<close>

definition triggers_only :: "'ty set \<Rightarrow> ('ty, 'h, 'v) program \<Rightarrow> bool" where
  "triggers_only K p \<longleftrightarrow> (\<forall>h e a. a \<in> set (p h e) \<longrightarrow> (\<exists>ty e'. a = TriggerEvent ty e' \<and> ty \<in> K))"

definition registered :: "'ty set \<Rightarrow> ('ty, 'h, 'v) world \<Rightarrow> bool" where
  "registered K w \<longleftrightarrow>
     (\<forall>ty \<in> K. \<exists>i q. map_of (static_ids (registry w)) ty = Some i \<and> pool_at w i = Some q)"

definition same_pools :: "('ty, 'h, 'v) world \<Rightarrow> ('ty, 'h, 'v) world \<Rightarrow> bool" where
  "same_pools w w' \<longleftrightarrow> registry w' = registry w \<and> event_pools w' = event_pools w"

text \<open>
  \<open>ok_result R w r\<close>: the result \<open>r\<close> of an operation started in \<open>w\<close> is not undefined
  behaviour, and a normal return is related to \<open>w\<close> by \<open>R\<close>.
\<close>

definition ok_result ::
  "(('ty, 'h, 'v) world \<Rightarrow> ('ty, 'h, 'v) world \<Rightarrow> bool) \<Rightarrow> ('ty, 'h, 'v) world \<Rightarrow>
   ('ty, 'h, 'v) world result \<Rightarrow> bool" where
  "ok_result R w r \<longleftrightarrow> r \<noteq> Inl IteratorInvalidated \<and> (\<forall>w'. r = Inr w' \<longrightarrow> R w w')"

definition keeps_pools :: "'ty set \<Rightarrow> ('ty, 'h, 'v) invoker \<Rightarrow> bool" where
  "keeps_pools K run \<longleftrightarrow> (\<forall>h e w. registered K w \<longrightarrow> ok_result same_pools w (run h e w))"

text \<open>
  \<open>shape_kept w w'\<close>: what the dispatch of one pool preserves of the bus: the
  registry, \<^verbatim>\<open>mEventPools\<close> at the same generation and length, and every pool.
\<close>

definition shape_kept :: "('ty, 'h, 'v) world \<Rightarrow> ('ty, 'h, 'v) world \<Rightarrow> bool" where
  "shape_kept w w' \<longleftrightarrow>
     registry w' = registry w \<and> vgen (event_pools w') = vgen (event_pools w) \<and>
     length (velems (event_pools w')) = length (velems (event_pools w)) \<and>
     (\<forall>i. pool_at w i \<noteq> None \<longrightarrow> pool_at w' i \<noteq> None)"

lemma same_pools_refl [simp]: "same_pools w w"
  by (simp add: same_pools_def)

lemma same_pools_trans: "same_pools w1 w2 \<Longrightarrow> same_pools w2 w3 \<Longrightarrow> same_pools w1 w3"
  by (simp add: same_pools_def)

lemma same_pools_log_call [simp]: "same_pools w (log_call h i e w)"
  by (simp add: same_pools_def log_call_def)

lemma pool_at_same_pools: "same_pools w w' \<Longrightarrow> pool_at w' i = pool_at w i"
  by (simp add: same_pools_def pool_at_def)

lemma same_pools_handler: "same_pools w w' \<Longrightarrow> handler w' i = handler w i"
  by (simp add: handler_def pool_at_same_pools)

lemma registered_same_pools: "registered K w \<Longrightarrow> same_pools w w' \<Longrightarrow> registered K w'"
  by (simp add: registered_def pool_at_same_pools) (simp add: same_pools_def)

lemma registered_log_call [simp]: "registered K (log_call h i e w) = registered K w"
  by (simp add: registered_def log_call_def pool_at_def)

lemma shape_kept_refl [simp]: "shape_kept w w"
  by (simp add: shape_kept_def)

lemma shape_kept_trans: "shape_kept w1 w2 \<Longrightarrow> shape_kept w2 w3 \<Longrightarrow> shape_kept w1 w3"
  by (simp add: shape_kept_def)

lemma shape_kept_same_pools: "same_pools w w' \<Longrightarrow> shape_kept w w'"
  by (simp add: shape_kept_def same_pools_def pool_at_def)

lemma shape_kept_map_pool: "shape_kept w (map_pool i f w)"
  by (simp add: shape_kept_def)

lemma registered_shape_kept: "registered K w \<Longrightarrow> shape_kept w w' \<Longrightarrow> registered K w'"
  by (fastforce simp: registered_def shape_kept_def)

lemma ok_result_Inr [simp]: "ok_result R w (Inr w') = R w w'"
  by (simp add: ok_result_def)

lemma ok_result_bindE:
  assumes trans: "\<And>w1 w2 w3. R w1 w2 \<Longrightarrow> R w2 w3 \<Longrightarrow> R w1 w3"
    and m: "ok_result R w m" and g: "\<And>x. m = Inr x \<Longrightarrow> ok_result R x (g x)"
  shows "ok_result R w (bindE m g)"
proof (cases m)
  case (Inl err)
  with m show ?thesis by (simp add: ok_result_def)
next
  case (Inr x)
  with m g [OF Inr] show ?thesis by (auto simp: ok_result_def intro: trans)
qed

lemma ok_result_mono:
  "ok_result R w r \<Longrightarrow> (\<And>w'. R w w' \<Longrightarrow> R' w w') \<Longrightarrow> ok_result R' w r"
  by (auto simp: ok_result_def)

lemma keeps_poolsD: "keeps_pools K run \<Longrightarrow> registered K w \<Longrightarrow> ok_result same_pools w (run h e w)"
  by (simp add: keeps_pools_def)

lemma ok_result_same_pools_bindE:
  "ok_result same_pools w m \<Longrightarrow> (\<And>x. m = Inr x \<Longrightarrow> ok_result same_pools x (g x)) \<Longrightarrow>
   ok_result same_pools w (bindE m g)"
  by (rule ok_result_bindE [OF same_pools_trans])

lemma invoke_slots_keeps:
  assumes run: "keeps_pools K run"
  shows "registered K w \<Longrightarrow> ok_result same_pools w (invoke_slots run i ss e w)"
proof (induction ss arbitrary: w)
  case (Cons s ss)
  obtain k h where s: "s = (k, h)" by (cases s)
  have "ok_result same_pools w (run h e (log_call h i e w))"
    using keeps_poolsD [OF run, of "log_call h i e w" h e] Cons.prems
    by (auto simp: ok_result_def intro: same_pools_trans [OF same_pools_log_call])
  then show ?case unfolding s invoke_slots.simps
  proof (rule ok_result_same_pools_bindE)
    fix x assume "run h e (log_call h i e w) = Inr x"
    with keeps_poolsD [OF run] Cons.prems have "same_pools (log_call h i e w) x"
      by (metis ok_result_Inr registered_log_call)
    with Cons.prems have "registered K x"
      by (blast intro: registered_same_pools registered_log_call [THEN iffD2])
    then show "ok_result same_pools x (invoke_slots run i ss e x)" by (rule Cons.IH)
  qed
qed simp

lemma trigger_event_keeps:
  assumes run: "keeps_pools K run" and reg: "registered K w" and ty: "ty \<in> K"
  shows "ok_result same_pools w (trigger_event run ty e w)"
proof -
  from reg ty obtain i q where "map_of (static_ids (registry w)) ty = Some i" "pool_at w i = Some q"
    by (auto simp: registered_def)
  then have "get_event_handler ty w = (i, w)" by (rule get_event_handler_existing)
  with invoke_slots_keeps [OF run reg] show ?thesis
    by (simp add: trigger_event_def pool_trigger_event_def)
qed

lemma exec_triggers_keeps:
  assumes run: "keeps_pools K run"
  shows "\<forall>a \<in> set as. \<exists>ty e. a = TriggerEvent ty e \<and> ty \<in> K \<Longrightarrow> registered K w \<Longrightarrow>
         ok_result same_pools w (exec_actions run as w)"
proof (induction as arbitrary: w)
  case (Cons a as)
  then obtain ty e where a: "a = TriggerEvent ty e" and ty: "ty \<in> K" by auto
  show ?case unfolding exec_actions.simps
  proof (rule ok_result_same_pools_bindE)
    show "ok_result same_pools w (bus_call run a w)"
      unfolding a bus_call.simps using run Cons.prems(2) ty by (rule trigger_event_keeps)
    fix x assume "bus_call run a w = Inr x"
    with \<open>ok_result same_pools w (bus_call run a w)\<close> have "same_pools w x" by simp
    with Cons.prems(2) have "registered K x" by (rule registered_same_pools)
    with Cons.prems(1) show "ok_result same_pools x (exec_actions run as x)" by (intro Cons.IH) simp_all
  qed
qed simp

lemma run_callable_keeps:
  assumes p: "triggers_only K p"
  shows "keeps_pools K (run_callable f p)"
proof (induction f)
  case 0
  show ?case by (simp add: keeps_pools_def ok_result_def)
next
  case (Suc f)
  have "\<forall>a \<in> set (p h e). \<exists>ty e'. a = TriggerEvent ty e' \<and> ty \<in> K" for h e
    using p by (simp add: triggers_only_def)
  with exec_triggers_keeps [OF Suc.IH] show ?case by (simp add: keeps_pools_def)
qed

lemma ok_result_shape_kept_bindE:
  "ok_result shape_kept w m \<Longrightarrow> (\<And>x. m = Inr x \<Longrightarrow> ok_result shape_kept x (g x)) \<Longrightarrow>
   ok_result shape_kept w (bindE m g)"
  by (rule ok_result_bindE [OF shape_kept_trans])

lemma pool_dispatch_loop_safe:
  "keeps_pools K run \<Longrightarrow> registered K w \<Longrightarrow> vgen (pqueue (handler w i)) = g \<Longrightarrow>
   ok_result shape_kept w (pool_dispatch_loop run i j n g w)"
proof (induction run i j n g w rule: pool_dispatch_loop.induct)
  case (1 run i j n g w)
  let ?q = "pqueue (handler w i)"
  show ?case
  proof (cases "n \<le> j")
    case True
    with "1.prems"(3) show ?thesis
      by (subst pool_dispatch_loop.simps) (simp add: Let_def shape_kept_map_pool)
  next
    case False
    let ?m = "invoke_slots run i (slots (psignal (handler w i))) (velems ?q ! j) w"
    have eq: "pool_dispatch_loop run i j n g w = bindE ?m (pool_dispatch_loop run i (Suc j) n g)"
      using "1.prems"(3) False by (subst pool_dispatch_loop.simps) (simp add: Let_def)
    have m: "ok_result same_pools w ?m" by (rule invoke_slots_keeps [OF "1.prems"(1,2)])
    show ?thesis unfolding eq
    proof (rule ok_result_shape_kept_bindE)
      show "ok_result shape_kept w ?m" using m by (rule ok_result_mono) (rule shape_kept_same_pools)
      fix x assume x: "?m = Inr x"
      with m have sp: "same_pools w x" by simp
      show "ok_result shape_kept x (pool_dispatch_loop run i (Suc j) n g x)"
      proof (rule "1.IH" [OF refl _ _ x "1.prems"(1)])
        show "registered K x" using "1.prems"(2) sp by (rule registered_same_pools)
        show "vgen (pqueue (handler x i)) = g" using "1.prems"(3) sp by (simp add: same_pools_handler)
      qed (use "1.prems"(3) False in simp_all)
    qed
  qed
qed

lemma pool_dispatch_queued_events_safe:
  "keeps_pools K run \<Longrightarrow> registered K w \<Longrightarrow>
   ok_result shape_kept w (pool_dispatch_queued_events run i w)"
  by (simp add: pool_dispatch_queued_events_def Let_def pool_dispatch_loop_safe)

lemma dispatch_loop_safe:
  "keeps_pools K run \<Longrightarrow> registered K w \<Longrightarrow> vgen (event_pools w) = g \<Longrightarrow>
   ok_result shape_kept w (dispatch_loop run j n g w)"
proof (induction run j n g w rule: dispatch_loop.induct)
  case (1 run j n g w)
  show ?case
  proof (cases "n \<le> j")
    case True
    with "1.prems"(3) show ?thesis by (subst dispatch_loop.simps) simp
  next
    case False
    show ?thesis
    proof (cases "velems (event_pools w) ! j")
      case None
      with "1.prems" False have "dispatch_loop run j n g w = dispatch_loop run (Suc j) n g w"
        by (subst dispatch_loop.simps) simp
      with "1.IH"(1) [OF _ _ None "1.prems"] "1.prems"(3) False show ?thesis by simp
    next
      case (Some p)
      let ?m = "pool_dispatch_queued_events run j w"
      have eq: "dispatch_loop run j n g w = bindE ?m (dispatch_loop run (Suc j) n g)"
        using "1.prems"(3) False Some by (subst dispatch_loop.simps) simp
      show ?thesis unfolding eq
      proof (rule ok_result_shape_kept_bindE)
        show m: "ok_result shape_kept w ?m" by (rule pool_dispatch_queued_events_safe [OF "1.prems"(1,2)])
        fix x assume x: "?m = Inr x"
        with m have sk: "shape_kept w x" by simp
        show "ok_result shape_kept x (dispatch_loop run (Suc j) n g x)"
        proof (rule "1.IH"(2) [OF _ _ Some x "1.prems"(1)])
          show "registered K x" using "1.prems"(2) sk by (rule registered_shape_kept)
          show "vgen (event_pools x) = g" using "1.prems"(3) sk by (simp add: shape_kept_def)
        qed (use "1.prems"(3) False in simp_all)
      qed
    qed
  qed
qed

text \<open>
  C7: Re-entrant triggering during \<^verbatim>\<open>DispatchQueuedEvents()\<close> is safe: when the
  callables only trigger events of types whose pools already exist, dispatching all
  queues never runs into undefined behaviour through an invalidated iterator,
  however deeply the triggers nest; the only abnormal outcome left is exhausting
  the stack.
\<close>

theorem dispatch_reentrant_trigger_safe:
  assumes "triggers_only K p" and "registered K w"
  shows "bus_exec p f DispatchQueuedEvents w \<noteq> Inl IteratorInvalidated"
proof -
  have "ok_result shape_kept w (dispatch_queued_events (run_callable f p) w)"
    unfolding dispatch_queued_events_def
    by (rule dispatch_loop_safe [OF run_callable_keeps [OF assms(1)] assms(2) refl])
  then show ?thesis by (simp add: bus_exec_def ok_result_def)
qed

theorem dispatch_reentrant_trigger_safe_witness:
  "bus_exec (\<lambda>(h::nat) (e::int). if h = 7 then [TriggerEvent CHR ''b'' e] else []) 3
     DispatchQueuedEvents
     (enqueue_event CHR ''a'' 5 (snd (subscribe_to_event CHR ''b'' 8
       (snd (subscribe_to_event CHR ''a'' 7 world_init))))) \<noteq> Inl IteratorInvalidated"
proof (rule dispatch_reentrant_trigger_safe [where K = "{CHR ''b''}"])
  show "triggers_only {CHR ''b''}
      (\<lambda>(h::nat) (e::int). if h = 7 then [TriggerEvent CHR ''b'' e] else [])"
    by (simp add: triggers_only_def)
  show "registered {CHR ''b''} (enqueue_event CHR ''a'' (5::int) (snd (subscribe_to_event CHR ''b'' (8::nat)
       (snd (subscribe_to_event CHR ''a'' 7 world_init)))))"
    by (simp add: registered_def eval_simps)
qed

text \<open>
  C8: Re-entrant triggering does not always terminate: when the first callable bound
  to a type starts by triggering that same type again, \<^verbatim>\<open>TriggerEvent\<close> recurses
  without bound and, for every bound on the nesting of callables, ends by exhausting
  the stack (a stack overflow in the C++ program); no fuel makes it return.
\<close>

theorem self_trigger_exhausts:
  assumes m: "map_of (static_ids (registry w)) ty = Some i" and q: "pool_at w i = Some q"
    and s: "slots (psignal q) = (k, h) # ss" and p: "\<forall>e. \<exists>e' as. p h e = TriggerEvent ty e' # as"
  shows "bus_exec p f (TriggerEvent ty e) w = Inl StackExhausted"
  using m q
proof (induction f arbitrary: e w)
  case 0
  from get_event_handler_existing [OF 0] s show ?case
    by (simp add: bus_exec_def trigger_event_def pool_trigger_event_def handler_Some [OF "0.prems"(2)])
next
  case (Suc f)
  from p obtain e' as where pe: "p h e = TriggerEvent ty e' # as" by blast
  let ?w = "log_call h i e w"
  have "map_of (static_ids (registry ?w)) ty = Some i" "pool_at ?w i = Some q"
    using Suc.prems by (simp_all add: log_call_def)
  then have "trigger_event (run_callable f p) ty e' ?w = Inl StackExhausted"
    using Suc.IH [of ?w e'] by (simp add: bus_exec_def)
  with get_event_handler_existing [OF Suc.prems] s pe show ?case
    by (simp add: bus_exec_def trigger_event_def pool_trigger_event_def handler_Some [OF Suc.prems(2)])
qed

theorem self_trigger_exhausts_witness:
  "bus_exec (\<lambda>(h::nat) (e::int). [TriggerEvent CHR ''a'' (e + 1)]) 5 (TriggerEvent CHR ''a'' 0)
     (snd (subscribe_to_event CHR ''a'' 7 world_init)) = Inl StackExhausted"
proof -
  let ?w = "snd (subscribe_to_event CHR ''a'' (7::nat) (world_init :: (char, nat, int) world))"
  have m: "map_of (static_ids (registry ?w)) CHR ''a'' = Some 0" by (simp add: eval_simps)
  have q: "pool_at ?w 0 = Some \<lparr>psignal = \<lparr>slots = [(0, 7)], next_slot = 1\<rparr>, pqueue = vec_empty\<rparr>"
    by (simp add: eval_simps)
  show ?thesis by (rule self_trigger_exhausts [OF m q]) simp_all
qed

end
