(* ===== verification/Density.thy ===== *)
theory Density
  imports Invariant
begin

text \<open>
  In a program with one bus, \<^verbatim>\<open>mEventPools\<close> is dense: it is exactly as long as
  the id counter and every slot holds a pool, since an id is only drawn by
  \<^verbatim>\<open>GetEventHandler\<close>, which grows the vector to it and fills the slot at once.
  \<open>dense_wf\<close> is that together with \<open>world_wf\<close>; its implication is a
  \<open>bus_order\<close>, so theory \<open>Closure\<close> carries it through re-entrant callbacks and
  every reachable world is dense. Consequence (C13): the slot \<open>i\<close> of
  \<^verbatim>\<open>mEventPools\<close> is reached through exactly one event type, the one whose id is
  \<open>i\<close>, so the \<^verbatim>\<open>static_cast<EventPool<Event>&>\<close> of line 177 always casts a pool
  to the type it was created for.
\<close>

definition pools_dense :: "('ty, 'h, 'v) world \<Rightarrow> bool" where
  "pools_dense w \<longleftrightarrow>
     length (velems (event_pools w)) = unique_id (registry w) \<and> None \<notin> set (velems (event_pools w))"

definition dense_wf :: "('ty, 'h, 'v) world \<Rightarrow> bool" where
  "dense_wf w \<longleftrightarrow> world_wf w \<and> pools_dense w"

definition dense_order :: "('ty, 'h, 'v) world \<Rightarrow> ('ty, 'h, 'v) world \<Rightarrow> bool" where
  "dense_order w w' \<longleftrightarrow> (dense_wf w \<longrightarrow> dense_wf w')"

lemma pools_dense_iff:
  "pools_dense w \<longleftrightarrow>
     length (velems (event_pools w)) = unique_id (registry w) \<and>
     (\<forall>j < length (velems (event_pools w)). pool_at w j \<noteq> None)"
  by (auto simp: pools_dense_def pool_at_def in_set_conv_nth)

lemma pools_dense_calls_update [simp]: "pools_dense (w\<lparr>calls := cs\<rparr>) = pools_dense w"
  by (simp add: pools_dense_def)

lemma pools_dense_set_pool:
  "pools_dense w \<Longrightarrow> pools_dense (set_pool i p w)"
  by (simp add: pools_dense_iff)

lemma pools_dense_map_pool:
  "pools_dense w \<Longrightarrow> pools_dense (map_pool i f w)"
  by (simp add: pools_dense_iff)

lemma get_event_handler_id_le:
  assumes wf: "world_wf w" and g: "get_event_handler ty w = (i, w1)"
  shows "i \<le> unique_id (registry w)"
proof (cases "map_of (static_ids (registry w)) ty")
  case None
  with get_event_handler_eq(1) [OF g, symmetric] show ?thesis by (simp add: get_event_id_fresh)
next
  case (Some i0)
  with get_event_handler_eq(1) [OF g] have "i = i0" by (simp add: get_event_id_known)
  with wf Some show ?thesis by (auto simp: world_wf_def dest: registry_wf_map_of_bound)
qed

lemma pools_dense_get_event_handler:
  assumes wf: "world_wf w" and d: "pools_dense w" and g: "get_event_handler ty w = (i, w1)"
  shows "pools_dense w1"
proof -
  note eq = get_event_handler_eq [OF g]
  from wf g have ile: "i \<le> length (velems (event_pools w))"
    using d by (simp add: get_event_handler_id_le pools_dense_def)
  have len: "length (velems (event_pools w1)) = unique_id (registry w1)"
  proof (cases "map_of (static_ids (registry w)) ty")
    case None
    with eq(1) [symmetric] have "i = unique_id (registry w)"
      "unique_id (registry w1) = Suc (unique_id (registry w))"
      by (simp_all add: get_event_id_fresh)
    with d eq(5) show ?thesis by (simp add: pools_dense_def)
  next
    case (Some i0)
    with eq(1) have "registry w1 = registry w" by (simp add: get_event_id_known)
    moreover from get_event_handler_eq(1) [OF g] Some have "i = i0" by (simp add: get_event_id_known)
    with wf Some have "i < unique_id (registry w)"
      by (auto simp: world_wf_def dest: registry_wf_map_of_bound)
    ultimately show ?thesis using d eq(5) by (simp add: pools_dense_def)
  qed
  have "pool_at w1 j \<noteq> None" if j: "j < length (velems (event_pools w1))" for j
  proof (cases "j = i")
    case False
    with j eq(5) ile have "j < length (velems (event_pools w))" by auto
    with d False eq(3) show ?thesis by (simp add: pools_dense_iff)
  qed (simp add: eq(2))
  with len show ?thesis by (simp add: pools_dense_iff)
qed

lemma dense_wf_get_event_handler:
  "dense_wf w \<Longrightarrow> get_event_handler ty w = (i, w1) \<Longrightarrow> dense_wf w1"
  unfolding dense_wf_def by (blast intro: get_event_handler_wf pools_dense_get_event_handler)

lemma dense_wf_map_pool:
  "dense_wf w \<Longrightarrow> (\<And>p. pool_wf p \<Longrightarrow> pool_wf (f p)) \<Longrightarrow> dense_wf (map_pool i f w)"
  by (simp add: dense_wf_def map_pool_wf pools_dense_map_pool)

lemma dense_order: "bus_order dense_order"
proof (rule bus_orderI)
  fix w :: "('ty, 'h, 'v) world"
  show "dense_order w (map_pool i pool_clear w)" for i
    by (simp add: dense_order_def dense_wf_map_pool)
  show "dense_order w (enqueue_event ty e w)" for ty e
    by (auto simp: dense_order_def enqueue_event_def split: prod.split
        intro: dense_wf_map_pool dense_wf_get_event_handler)
  show "dense_order w (clear_event_queues w)"
    using clear_event_queues_wf [of w]
    by (auto simp: dense_order_def dense_wf_def pools_dense_def clear_event_queues_def)
  show "dense_order w (snd (subscribe_to_event ty h w))" for ty h
  proof (cases "get_event_handler ty w")
    case (Pair i w1)
    then show ?thesis
      using subscribe_to_event_wf [of w ty h] dense_wf_get_event_handler [of w ty i w1]
      by (auto simp: dense_order_def dense_wf_def subscribe_to_event_def Let_def
          pools_dense_set_pool split: prod.split)
  qed
  show "dense_order w (unsubscribe_from_event c w)" for c
    using unsubscribe_from_event_wf [of w c]
    by (cases c) (auto simp: dense_order_def dense_wf_def pools_dense_map_pool)
qed (auto simp: dense_order_def log_call_def dense_wf_def intro: get_event_handler_wf
       pools_dense_get_event_handler)

lemma reachable_dense_wf: "reachable p f w \<Longrightarrow> dense_wf w"
proof (induction rule: reachable.induct)
  case init
  have "pools_dense (world_init :: ('ty, 'h, 'v) world)"
    by (simp add: pools_dense_def world_init_def registry_init_def vec_empty_def)
  then show ?case by (simp add: dense_wf_def world_wf_init)
next
  case (step w a w')
  from bus_exec_order [OF dense_order step.hyps(2)] step.IH show ?case by (simp add: dense_order_def)
qed

lemma registry_wf_id_exists:
  assumes "registry_wf r" and "i < unique_id r"
  shows "\<exists>ty. map_of (static_ids r) ty = Some i"
proof -
  from assms have "i \<in> set (map snd (static_ids r))" by (simp add: registry_wf_def)
  then obtain ty where "(ty, i) \<in> set (static_ids r)" by auto
  with assms(1) have "map_of (static_ids r) ty = Some i"
    by (simp add: registry_wf_def map_of_is_SomeI)
  then show ?thesis ..
qed

text \<open>
  C13: Type safety of the pool lookup. In every reachable world each slot \<open>i\<close> of
  \<^verbatim>\<open>mEventPools\<close> holds a pool, and exactly one event type has the id \<open>i\<close>; so the
  pool \<^verbatim>\<open>GetEventHandler<Event>\<close> returns through \<^verbatim>\<open>static_cast<EventPool<Event>&>\<close>
  was created by \<^verbatim>\<open>GetEventHandler\<close> for that same \<^verbatim>\<open>Event\<close>, and
  \<^verbatim>\<open>DispatchQueuedEvents()\<close> calls the \<^verbatim>\<open>EventPool\<close> of the right type through
  the base pointer.
\<close>

theorem pool_slot_unique_type:
  assumes "reachable p f w" and "i < length (velems (event_pools w))"
  shows "pool_at w i \<noteq> None \<and> (\<exists>!ty. map_of (static_ids (registry w)) ty = Some i)"
proof -
  from reachable_dense_wf [OF assms(1)] have wf: "world_wf w" and d: "pools_dense w"
    by (simp_all add: dense_wf_def)
  from wf have r: "registry_wf (registry w)" by (simp add: world_wf_def)
  from d assms(2) have "pool_at w i \<noteq> None" by (simp add: pools_dense_iff)
  moreover from d assms(2) have "i < unique_id (registry w)" by (simp add: pools_dense_def)
  with r obtain ty where "map_of (static_ids (registry w)) ty = Some i"
    by (blast dest: registry_wf_id_exists)
  with r have "\<exists>!ty. map_of (static_ids (registry w)) ty = Some i"
    by (blast intro: registry_wf_map_of_inj)
  ultimately show ?thesis ..
qed

theorem pool_slot_unique_type_witness:
  "pool_at (snd (subscribe_to_event CHR ''a'' (7::nat) (world_init :: (char, nat, int) world))) 0 \<noteq> None \<and>
   (\<exists>!ty. map_of (static_ids (registry (snd (subscribe_to_event CHR ''a'' (7::nat)
      (world_init :: (char, nat, int) world))))) ty = Some 0)"
proof -
  let ?w = "snd (subscribe_to_event CHR ''a'' (7::nat) (world_init :: (char, nat, int) world))"
  have r: "reachable (\<lambda>h e. []) 1 ?w"
    by (rule reachable.step [OF reachable.init, where a = "SubscribeToEvent CHR ''a'' 7"])
      (simp add: bus_exec_def)
  have "0 < length (velems (event_pools ?w))" by (simp add: eval_simps)
  with pool_slot_unique_type [OF r] show ?thesis by blast
qed

end
