(* ===== verification/Selective.thy ===== *)
theory Selective
  imports Safety Density
begin

text \<open>
  The two ways of clearing queues: the variadic \<^verbatim>\<open>ClearEventQueues<Event...>()\<close>
  (lines 217--221, \<open>clear_event_queues_only\<close>: resolve each named type, clear its
  pool) and \<^verbatim>\<open>ClearEventQueues()\<close> (lines 223--228, \<open>clear_event_queues\<close>: clear
  every pool of \<^verbatim>\<open>mEventPools\<close>). The specification says the two mirror the two
  flushes. The theorem of this theory makes the relation precise: in a bus reached by
  a program, naming every registered type in registration order, the selective clear
  is the total one. (The variadic flush \<^verbatim>\<open>DispatchQueuedEvents<Event...>()\<close> has no
  such counterpart: it cannot be instantiated, see theory \<open>Exec\<close>.)
\<close>

lemma registry_wf_nth:
  assumes r: "registry_wf r" and j: "j < unique_id r"
  shows "snd (static_ids r ! j) = j" and "map_of (static_ids r) (fst (static_ids r ! j)) = Some j"
    and "j < length (static_ids r)"
proof -
  from r have ids: "map snd (static_ids r) = [0..<unique_id r]" by (simp add: registry_wf_def)
  then have len: "length (static_ids r) = unique_id r" by (metis length_map length_upt minus_nat.diff_0)
  with j show "j < length (static_ids r)" by simp
  from ids j len show s: "snd (static_ids r ! j) = j" by (metis nth_map nth_upt plus_nat.add_0)
  from j len have "static_ids r ! j \<in> set (static_ids r)" by simp
  with s have "(fst (static_ids r ! j), j) \<in> set (static_ids r)" by (metis prod.collapse)
  with r show "map_of (static_ids r) (fst (static_ids r ! j)) = Some j"
    by (simp add: registry_wf_def map_of_is_SomeI)
qed

lemma clear_of_suffix_eq_from:
  "registry_wf (registry w) \<Longrightarrow> pools_dense w \<Longrightarrow> static_ids (registry w) = js \<Longrightarrow>
   n = length (velems (event_pools w)) \<Longrightarrow> j \<le> n \<Longrightarrow>
   clear_event_queues_only (map fst (drop j js)) w = clear_queues_from j w"
proof (induction "n - j" arbitrary: j w)
  case 0
  then have "j = n" by simp
  moreover from "0.prems"(1,2,3,4) have "length js = n"
    by (metis diff_zero length_map length_upt pools_dense_def registry_wf_def)
  ultimately show ?case using "0.prems"(4) by (simp add: clear_queues_from_end)
next
  case (Suc m)
  from Suc.hyps(2) have j: "j < n" by simp
  with Suc.prems(2,4) have ju: "j < unique_id (registry w)" by (simp add: pools_dense_def)
  note nth = registry_wf_nth [OF Suc.prems(1) ju]
  from Suc.prems(2,4) j obtain q where q: "pool_at w j = Some q"
    by (auto simp: pools_dense_iff)
  let ?ty = "fst (js ! j)"
  have g: "get_event_handler ?ty w = (j, w)"
    using nth(2) Suc.prems(3) q by (simp add: get_event_handler_existing)
  have drop: "drop j js = (?ty, j) # drop (Suc j) js"
    using nth(1,3) Suc.prems(3) by (metis Cons_nth_drop_Suc prod.collapse)
  let ?w1 = "map_pool j pool_clear w"
  have "clear_event_queues_only (map fst (drop (Suc j) js)) ?w1 = clear_queues_from (Suc j) ?w1"
    by (rule Suc.hyps(1)) (use Suc.hyps(2) Suc.prems j in \<open>simp_all add: pools_dense_map_pool\<close>)
  also have "\<dots> = clear_queues_from j w" using clear_queues_from_step [of j w] Suc.prems(4) j by simp
  finally show ?case unfolding drop using g by simp
qed

text \<open>
  C19: Equivalence of the two clears. In a reachable world, naming every registered
  event type in registration order, \<^verbatim>\<open>ClearEventQueues<Event...>()\<close> has the same
  result as \<^verbatim>\<open>ClearEventQueues()\<close>: every queue emptied once, nothing else changed.
\<close>

theorem clear_all_types_eq_clear:
  assumes "reachable p' f' w"
  shows "bus_exec p f (ClearEventQueuesOf (map fst (static_ids (registry w)))) w =
         bus_exec p f ClearEventQueues w"
proof -
  from reachable_dense_wf [OF assms] have "registry_wf (registry w)" and "pools_dense w"
    by (simp_all add: dense_wf_def world_wf_def)
  from clear_of_suffix_eq_from [OF this refl refl, of 0]
  show ?thesis by (simp add: bus_exec_def clear_queues_from_zero)
qed

theorem clear_all_types_eq_clear_witness:
  "bus_exec (\<lambda>(h::nat) (e::int). []) 1 (ClearEventQueuesOf [CHR ''a'', CHR ''b''])
     (enqueue_event CHR ''a'' 5 (snd (subscribe_to_event CHR ''b'' 8 (snd (subscribe_to_event CHR ''a'' 7 world_init))))) =
   bus_exec (\<lambda>(h::nat) (e::int). []) 1 ClearEventQueues
     (enqueue_event CHR ''a'' 5 (snd (subscribe_to_event CHR ''b'' 8 (snd (subscribe_to_event CHR ''a'' 7 world_init)))))"
proof -
  let ?p = "\<lambda>(h::nat) (e::int). [] :: (char, nat, int) action list"
  let ?w1 = "snd (subscribe_to_event CHR ''a'' (7::nat) (world_init :: (char, nat, int) world))"
  let ?w2 = "snd (subscribe_to_event CHR ''b'' (8::nat) ?w1)"
  let ?w3 = "enqueue_event CHR ''a'' (5::int) ?w2"
  have r1: "reachable ?p 1 ?w1"
    by (rule reachable.step [OF reachable.init, where a = "SubscribeToEvent CHR ''a'' 7"])
      (simp add: bus_exec_def)
  have r2: "reachable ?p 1 ?w2"
    by (rule reachable.step [OF r1, where a = "SubscribeToEvent CHR ''b'' 8"]) (simp add: bus_exec_def)
  have r3: "reachable ?p 1 ?w3"
    by (rule reachable.step [OF r2, where a = "EnqueueEvent CHR ''a'' 5"]) (simp add: bus_exec_def)
  have ids: "map fst (static_ids (registry ?w3)) = [CHR ''a'', CHR ''b'']" by (simp add: eval_simps)
  from clear_all_types_eq_clear [OF r3, of ?p 1] show ?thesis by (simp only: ids)
qed

end
