(* ===== verification/Lifecycle.thy ===== *)
theory Lifecycle
  imports Generations
begin

text \<open>
  The lifecycle the specification gives pools (section 4.3): a pool is absent until
  \<^verbatim>\<open>GetEventHandler\<close> first resolves its type, then active for the rest of the
  bus's life, never torn down or replaced; and a type, once it has an id, keeps it.
  \<open>registry_le w w'\<close>: the registry of \<open>w'\<close> extends that of \<open>w\<close> by appending.
  With \<open>gen_le\<close>, which says every pool of \<open>w\<close> is still in \<open>w'\<close>, it is a
  \<open>bus_order\<close>, so the lifecycle holds across re-entrant callbacks.
\<close>

definition registry_le :: "('ty, 'h, 'v) world \<Rightarrow> ('ty, 'h, 'v) world \<Rightarrow> bool" where
  "registry_le w w' \<longleftrightarrow> (\<exists>ext. static_ids (registry w') = static_ids (registry w) @ ext)"

lemma registry_le_same: "registry w' = registry w \<Longrightarrow> registry_le w w'"
  by (simp add: registry_le_def)

lemma registry_le_get_event_handler:
  "get_event_handler ty w = (i, w1) \<Longrightarrow> registry_le w w1"
  unfolding registry_le_def by (rule get_event_id_extends [OF get_event_handler_eq(1)])

lemma registry_le_trans: "registry_le w1 w2 \<Longrightarrow> registry_le w2 w3 \<Longrightarrow> registry_le w1 w3"
  by (auto simp: registry_le_def)

lemma registry_le_resolve_then:
  assumes "get_event_handler ty w = (i, w1)" and "registry (w2 :: ('ty, 'h, 'v) world) = registry w1"
  shows "registry_le w w2"
  using assms by (auto simp: registry_le_def dest: get_event_id_extends [OF get_event_handler_eq(1)])

lemma registry_order: "bus_order registry_le"
proof (rule bus_orderI)
  fix w :: "('ty, 'h, 'v) world"
  show "registry_le w (enqueue_event ty e w)" for ty e
    by (cases "get_event_handler ty w")
      (auto simp: enqueue_event_def intro: registry_le_resolve_then)
  show "registry_le w (snd (subscribe_to_event ty h w))" for ty h
    by (cases "get_event_handler ty w")
      (auto simp: subscribe_to_event_def Let_def split: prod.split intro: registry_le_resolve_then)
  show "registry_le w (unsubscribe_from_event c w)" for c
    by (cases c) (simp add: registry_le_same)
qed (auto simp: registry_le_same log_call_def clear_event_queues_def map_pool_def set_pool_def
       intro: registry_le_trans registry_le_get_event_handler split: option.split)

lemma lifecycle_order: "bus_order (\<lambda>w w'. gen_le w w' \<and> registry_le w w')"
  by (rule bus_order_conj [OF gen_order registry_order])

end
