(* ===== verification/Ordering.thy ===== *)
theory Ordering
  imports Safety
begin

text \<open>
  The order of invocations under nested triggering. The specification (section 4.2)
  says that a trigger from within a callable executes to completion before the outer
  invocation's remaining callables run: standard nested-call semantics. The mutually
  inductive relations below state that order as a big-step semantics over a fixed
  bus \<open>w\<close> (triggers change no pool, theory \<open>Safety\<close>):
  \<^item> \<open>trigger_trace p w ty e cs\<close>: triggering \<open>e\<close> of type \<open>ty\<close> invokes \<open>cs\<close>;
  \<^item> \<open>slots_trace p w i ss e cs\<close>: invoking the slots \<open>ss\<close> of pool \<open>i\<close> with \<open>e\<close>;
  \<^item> \<open>actions_trace p w as cs\<close>: the bus calls \<open>as\<close> of one callable, all triggers.
  A slot's invocation is logged, then everything its callable causes, then the
  remaining slots: a depth-first order. The theorem of this theory shows that the
  operational model (\<open>bus_exec\<close> at some fuel) and this semantics agree exactly.
\<close>

inductive trigger_trace and slots_trace and actions_trace
  for p :: "('ty, 'h, 'v) program" and w :: "('ty, 'h, 'v) world" where
  trig: "map_of (static_ids (registry w)) ty = Some i \<Longrightarrow> pool_at w i \<noteq> None \<Longrightarrow>
         slots_trace p w i (slots (psignal (handler w i))) e cs \<Longrightarrow> trigger_trace p w ty e cs"
| snil: "slots_trace p w i [] e []"
| scons: "actions_trace p w (p h e) cs1 \<Longrightarrow> slots_trace p w i ss e cs2 \<Longrightarrow>
          slots_trace p w i ((k, h) # ss) e ((h, i, e) # cs1 @ cs2)"
| anil: "actions_trace p w [] []"
| acons: "trigger_trace p w ty e cs1 \<Longrightarrow> actions_trace p w as cs2 \<Longrightarrow>
          actions_trace p w (TriggerEvent ty e # as) (cs1 @ cs2)"

lemma same_pools_calls_update [simp]: "same_pools w (x\<lparr>calls := cs\<rparr>) = same_pools w x"
  by (simp add: same_pools_def)

lemma same_pools_log_call_iff [simp]: "same_pools w (log_call h i e x) = same_pools w x"
  by (simp add: log_call_def)

lemma same_pools_get_event_handler:
  assumes "same_pools w x" and "map_of (static_ids (registry w)) ty = Some i" and "pool_at w i \<noteq> None"
  shows "get_event_handler ty x = (i, x)"
proof -
  from assms(1,2) have m: "map_of (static_ids (registry x)) ty = Some i" by (simp add: same_pools_def)
  from assms(3) obtain q where "pool_at w i = Some q" by auto
  with pool_at_same_pools [OF assms(1)] have "pool_at x i = Some q" by simp
  with m show ?thesis by (rule get_event_handler_existing)
qed

subsection \<open>Every trace is produced, with enough fuel\<close>

text \<open>
  \<open>trace_run p w run\<close>: every normal return of the invoker \<open>run\<close> from a world with
  the pools of \<open>w\<close> logs a trace of the callable's bus calls.
  \<open>eventually_returns r cs x\<close>: from some fuel on, the operation \<open>r\<close> (given the
  fuel) started in \<open>x\<close> returns \<open>x\<close> with \<open>cs\<close> appended to the log.
\<close>

definition trace_run ::
  "('ty, 'h, 'v) program \<Rightarrow> ('ty, 'h, 'v) world \<Rightarrow> ('ty, 'h, 'v) invoker \<Rightarrow> bool" where
  "trace_run p w run \<longleftrightarrow> (\<forall>h e x x'. same_pools w x \<longrightarrow> run h e x = Inr x' \<longrightarrow>
     (\<exists>cs. actions_trace p w (p h e) cs \<and> x' = x\<lparr>calls := calls x @ cs\<rparr>))"

definition eventually_returns ::
  "(nat \<Rightarrow> ('ty, 'h, 'v) world result) \<Rightarrow> ('h \<times> nat \<times> 'v) list \<Rightarrow> ('ty, 'h, 'v) world \<Rightarrow> bool" where
  "eventually_returns r cs x \<longleftrightarrow> (\<exists>f0. \<forall>f \<ge> f0. r f = Inr (x\<lparr>calls := calls x @ cs\<rparr>))"

lemma eventually_returnsI: "(\<And>f. f0 \<le> f \<Longrightarrow> r f = Inr (x\<lparr>calls := calls x @ cs\<rparr>)) \<Longrightarrow>
  eventually_returns r cs x"
  unfolding eventually_returns_def by blast

lemma traces_complete:
  shows "trigger_trace p w ty e cs \<Longrightarrow> \<forall>x. same_pools w x \<longrightarrow>
      eventually_returns (\<lambda>f. trigger_event (run_callable f p) ty e x) cs x"
    and "slots_trace p w i ss e cs' \<Longrightarrow> \<forall>x. same_pools w x \<longrightarrow>
      eventually_returns (\<lambda>f. invoke_slots (run_callable f p) i ss e x) cs' x"
    and "actions_trace p w as cs'' \<Longrightarrow> \<forall>x. same_pools w x \<longrightarrow>
      eventually_returns (\<lambda>f. exec_actions (run_callable f p) as x) cs'' x"
proof (induction rule: trigger_trace_slots_trace_actions_trace.inducts)
  case (trig ty i e cs)
  show ?case
  proof (intro allI impI)
    fix x assume x: "same_pools w x"
    from x trig(1,2) have g: "get_event_handler ty x = (i, x)" by (rule same_pools_get_event_handler)
    from x have "handler x i = handler w i" by (rule same_pools_handler)
    with trig(4) x g show "eventually_returns (\<lambda>f. trigger_event (run_callable f p) ty e x) cs x"
      by (simp add: trigger_event_def pool_trigger_event_def)
  qed
next
  case (snil i e)
  then show ?case by (auto simp: eventually_returns_def)
next
  case (scons h e cs1 i ss cs2 k)
  show ?case
  proof (intro allI impI)
    fix x assume x: "same_pools w x"
    let ?x1 = "log_call h i e x"
    let ?x2 = "?x1\<lparr>calls := calls ?x1 @ cs1\<rparr>"
    from scons(2) x obtain f1 where f1: "\<And>f. f1 \<le> f \<Longrightarrow>
        exec_actions (run_callable f p) (p h e) ?x1 = Inr ?x2"
      unfolding eventually_returns_def by (metis same_pools_log_call_iff)
    from scons(4) x obtain f2 where f2: "\<And>f. f2 \<le> f \<Longrightarrow>
        invoke_slots (run_callable f p) i ss e ?x2 = Inr (?x2\<lparr>calls := calls ?x2 @ cs2\<rparr>)"
      unfolding eventually_returns_def by (metis same_pools_calls_update same_pools_log_call_iff)
    show "eventually_returns (\<lambda>f. invoke_slots (run_callable f p) i ((k, h) # ss) e x)
        ((h, i, e) # cs1 @ cs2) x"
    proof (rule eventually_returnsI [of "max (Suc f1) f2"])
      fix f assume f: "max (Suc f1) f2 \<le> f"
      then obtain f' where f': "f = Suc f'" "f1 \<le> f'" by (cases f) auto
      with f1 have "run_callable f p h e ?x1 = Inr ?x2" by simp
      moreover from f f2 have "invoke_slots (run_callable f p) i ss e ?x2 =
          Inr (?x2\<lparr>calls := calls ?x2 @ cs2\<rparr>)" by simp
      ultimately show "invoke_slots (run_callable f p) i ((k, h) # ss) e x =
          Inr (x\<lparr>calls := calls x @ (h, i, e) # cs1 @ cs2\<rparr>)"
        by (simp add: log_call_def)
    qed
  qed
next
  case anil
  then show ?case by (auto simp: eventually_returns_def)
next
  case (acons ty e cs1 as cs2)
  show ?case
  proof (intro allI impI)
    fix x assume x: "same_pools w x"
    let ?x1 = "x\<lparr>calls := calls x @ cs1\<rparr>"
    from acons(2) x obtain f1 where f1: "\<And>f. f1 \<le> f \<Longrightarrow>
        trigger_event (run_callable f p) ty e x = Inr ?x1"
      unfolding eventually_returns_def by blast
    from acons(4) x obtain f2 where f2: "\<And>f. f2 \<le> f \<Longrightarrow>
        exec_actions (run_callable f p) as ?x1 = Inr (?x1\<lparr>calls := calls ?x1 @ cs2\<rparr>)"
      unfolding eventually_returns_def by (metis same_pools_calls_update)
    show "eventually_returns (\<lambda>f. exec_actions (run_callable f p) (TriggerEvent ty e # as) x)
        (cs1 @ cs2) x"
      by (rule eventually_returnsI [of "max f1 f2"]) (simp add: f1 f2)
  qed
qed

subsection \<open>Every normal return follows a trace\<close>

lemma invoke_slots_trace:
  assumes run: "trace_run p w run"
  shows "same_pools w x \<Longrightarrow> invoke_slots run i ss e x = Inr x' \<Longrightarrow>
         \<exists>cs. slots_trace p w i ss e cs \<and> x' = x\<lparr>calls := calls x @ cs\<rparr>"
proof (induction ss arbitrary: x)
  case Nil
  then show ?case by (auto intro: snil)
next
  case (Cons s ss)
  obtain k h where s: "s = (k, h)" by (cases s)
  with Cons.prems obtain y where y: "run h e (log_call h i e x) = Inr y"
    and rest: "invoke_slots run i ss e y = Inr x'" by (auto simp: bindE_eq_Inr)
  from run Cons.prems(1) y obtain cs1 where t1: "actions_trace p w (p h e) cs1"
    and y1: "y = (log_call h i e x)\<lparr>calls := calls (log_call h i e x) @ cs1\<rparr>"
    unfolding trace_run_def by (metis same_pools_log_call_iff)
  from Cons.prems(1) y1 have "same_pools w y" by simp
  from Cons.IH [OF this rest] obtain cs2 where t2: "slots_trace p w i ss e cs2"
    and x': "x' = y\<lparr>calls := calls y @ cs2\<rparr>" by blast
  from scons [OF t1 t2, of k] x' y1 show ?case unfolding s by (auto simp: log_call_def)
qed

lemma trigger_event_trace:
  assumes run: "trace_run p w run" and reg: "registered K w" and ty: "ty \<in> K"
    and x: "same_pools w x" and t: "trigger_event run ty e x = Inr x'"
  shows "\<exists>cs. trigger_trace p w ty e cs \<and> x' = x\<lparr>calls := calls x @ cs\<rparr>"
proof -
  from reg ty obtain i q where m: "map_of (static_ids (registry w)) ty = Some i"
    and q: "pool_at w i = Some q" by (auto simp: registered_def)
  from x m q have g: "get_event_handler ty x = (i, x)" by (intro same_pools_get_event_handler) auto
  from x have "handler x i = handler w i" by (rule same_pools_handler)
  with t g have "invoke_slots run i (slots (psignal (handler w i))) e x = Inr x'"
    by (simp add: trigger_event_def pool_trigger_event_def)
  from invoke_slots_trace [OF run x this] m q show ?thesis by (blast intro: trig)
qed

lemma exec_actions_trace:
  assumes run: "trace_run p w run" and reg: "registered K w"
  shows "\<forall>a \<in> set as. \<exists>ty e. a = TriggerEvent ty e \<and> ty \<in> K \<Longrightarrow> same_pools w x \<Longrightarrow>
         exec_actions run as x = Inr x' \<Longrightarrow>
         \<exists>cs. actions_trace p w as cs \<and> x' = x\<lparr>calls := calls x @ cs\<rparr>"
proof (induction as arbitrary: x)
  case Nil
  then show ?case by (auto intro: anil)
next
  case (Cons a as)
  then obtain ty e where a: "a = TriggerEvent ty e" and ty: "ty \<in> K" by auto
  with Cons.prems(3) obtain y where y: "trigger_event run ty e x = Inr y"
    and rest: "exec_actions run as y = Inr x'" by (auto simp: bindE_eq_Inr)
  from trigger_event_trace [OF run reg ty Cons.prems(2) y] obtain cs1
    where t1: "trigger_trace p w ty e cs1" and y1: "y = x\<lparr>calls := calls x @ cs1\<rparr>" by blast
  from Cons.prems(2) y1 have "same_pools w y" by simp
  from Cons.IH [OF _ this rest] Cons.prems(1) obtain cs2 where t2: "actions_trace p w as cs2"
    and x': "x' = y\<lparr>calls := calls y @ cs2\<rparr>" by auto
  from acons [OF t1 t2] x' y1 show ?case unfolding a by auto
qed

lemma run_callable_trace:
  assumes p: "triggers_only K p" and reg: "registered K w"
  shows "trace_run p w (run_callable f p)"
proof (induction f)
  case 0
  show ?case by (simp add: trace_run_def)
next
  case (Suc f)
  have "\<forall>a \<in> set (p h e). \<exists>ty e'. a = TriggerEvent ty e' \<and> ty \<in> K" for h e
    using p by (simp add: triggers_only_def)
  with exec_actions_trace [OF Suc.IH reg] show ?case by (simp add: trace_run_def)
qed

text \<open>
  C5: Nested triggers run to completion, depth first. When callables only trigger
  types whose pools exist, \<^verbatim>\<open>TriggerEvent\<close> returns normally at some bound on
  the nesting exactly when the big-step semantics has a trace for it, and then the
  invocations it makes are that trace: each callable's invocation, then all the
  invocations its own triggers cause, then the remaining callables of the outer
  signal, in subscription order.
\<close>

theorem trigger_nested_order:
  assumes "triggers_only K p" and "registered K w" and "ty \<in> K"
  shows "(\<exists>f. bus_exec p f (TriggerEvent ty e) w = Inr w') \<longleftrightarrow>
         (\<exists>cs. trigger_trace p w ty e cs \<and> w' = w\<lparr>calls := calls w @ cs\<rparr>)"
proof
  assume "\<exists>f. bus_exec p f (TriggerEvent ty e) w = Inr w'"
  then obtain f where "trigger_event (run_callable f p) ty e w = Inr w'" by (auto simp: bus_exec_def)
  from trigger_event_trace [OF run_callable_trace [OF assms(1,2)] assms(2,3) same_pools_refl this]
  show "\<exists>cs. trigger_trace p w ty e cs \<and> w' = w\<lparr>calls := calls w @ cs\<rparr>" .
next
  assume "\<exists>cs. trigger_trace p w ty e cs \<and> w' = w\<lparr>calls := calls w @ cs\<rparr>"
  then obtain cs where t: "trigger_trace p w ty e cs" and w': "w' = w\<lparr>calls := calls w @ cs\<rparr>" by blast
  from traces_complete(1) [OF t, rule_format, OF same_pools_refl] obtain f0 where
    "\<forall>f \<ge> f0. trigger_event (run_callable f p) ty e w = Inr (w\<lparr>calls := calls w @ cs\<rparr>)"
    by (auto simp: eventually_returns_def)
  with w' show "\<exists>f. bus_exec p f (TriggerEvent ty e) w = Inr w'" by (auto simp: bus_exec_def)
qed

theorem trigger_nested_order_witness:
  "\<exists>f. bus_exec (\<lambda>(h::nat) (e::int). if h = 7 then [TriggerEvent CHR ''b'' (e + 1)] else []) f
     (TriggerEvent CHR ''a'' 0)
     (snd (subscribe_to_event CHR ''b'' 8 (snd (subscribe_to_event CHR ''a'' 9
       (snd (subscribe_to_event CHR ''a'' 7 world_init)))))) =
   Inr ((snd (subscribe_to_event CHR ''b'' 8 (snd (subscribe_to_event CHR ''a'' 9
       (snd (subscribe_to_event CHR ''a'' 7 world_init))))))\<lparr>calls := [(7, 0, 0), (8, 1, 1), (9, 0, 0)]\<rparr>)"
proof -
  let ?p = "\<lambda>(h::nat) (e::int). if h = 7 then [TriggerEvent CHR ''b'' (e + 1)] else []"
  let ?w = "snd (subscribe_to_event CHR ''b'' 8 (snd (subscribe_to_event CHR ''a'' 9
       (snd (subscribe_to_event CHR ''a'' 7 (world_init :: (char, nat, int) world))))))"
  have t: "triggers_only {CHR ''a'', CHR ''b''} ?p" by (simp add: triggers_only_def)
  have k: "registered {CHR ''a'', CHR ''b''} ?w" by (simp add: registered_def eval_simps)
  have ma: "map_of (static_ids (registry ?w)) CHR ''a'' = Some 0"
    and mb: "map_of (static_ids (registry ?w)) CHR ''b'' = Some 1"
    and pa: "pool_at ?w 0 \<noteq> None" and pb: "pool_at ?w 1 \<noteq> None"
    and sa: "slots (psignal (handler ?w 0)) = [(0, 7), (1, 9)]"
    and sb: "slots (psignal (handler ?w 1)) = [(0, 8)]"
    and c0: "calls ?w = []"
    by (simp_all add: eval_simps)
  have n: "actions_trace ?p ?w (?p h e) []" if "h \<noteq> 7" for h e
    using that by (simp add: anil)
  have "slots_trace ?p ?w 1 [(0, 8)] 1 ((8, 1, 1) # [] @ [])"
    by (rule scons [OF n snil]) simp
  with mb pb sb have tb: "trigger_trace ?p ?w CHR ''b'' 1 [(8, 1, 1)]"
    by (intro trig [where i = 1]) simp_all
  have a7: "actions_trace ?p ?w (?p 7 0) ([(8, 1, 1)] @ [])"
    using acons [OF tb anil] by simp
  have "slots_trace ?p ?w 0 [(1, 9)] 0 ((9, 0, 0) # [] @ [])"
    by (rule scons [OF n snil]) simp
  then have "slots_trace ?p ?w 0 [(0, 7), (1, 9)] 0 ((7, 0, 0) # ([(8, 1, 1)] @ []) @ [(9, 0, 0)])"
    using scons [OF a7] by simp
  with ma pa sa have "trigger_trace ?p ?w CHR ''a'' 0 [(7, 0, 0), (8, 1, 1), (9, 0, 0)]"
    by (intro trig [where i = 0]) simp_all
  with trigger_nested_order [OF t k, of "CHR ''a''" 0] c0 show ?thesis by auto
qed

end
