(* ===== verification/Clearing.thy ===== *)
theory Clearing
  imports Reentrancy Lifecycle
begin

text \<open>
  Clearing queues from a callable while they are being dispatched.
  \<^verbatim>\<open>ClearEventQueues()\<close> calls \<^verbatim>\<open>ClearEventQueue()\<close> on every pool and
  \<^verbatim>\<open>ClearEventQueues<Event...>()\<close> on the named ones; \<^verbatim>\<open>mEventQueue.clear()\<close>
  invalidates every iterator into the queue. When a callable invoked by
  \<^verbatim>\<open>DispatchQueuedEvents()\<close> clears the queue being dispatched, at any point of its
  body, the range-for over that queue continues with invalid iterators. The
  specification lets callables call into the bus and says nothing against clearing.
  \<open>clears_queue ty a\<close>: the bus call \<open>a\<close> clears the queue of \<open>ty\<close>.
\<close>

fun clears_queue :: "'ty \<Rightarrow> ('ty, 'h, 'v) action \<Rightarrow> bool" where
  "clears_queue ty ClearEventQueues = True"
| "clears_queue ty (ClearEventQueuesOf tys) = (ty \<in> set tys)"
| "clears_queue ty a = False"

lemma exec_actions_append:
  "exec_actions run (xs @ ys) w = bindE (exec_actions run xs w) (exec_actions run ys)"
proof (induction xs arbitrary: w)
  case (Cons a xs)
  have "exec_actions run (xs @ ys) = (\<lambda>x. bindE (exec_actions run xs x) (exec_actions run ys))"
    using Cons.IH by (simp add: fun_eq_iff)
  then show ?case by (simp add: bindE_assoc)
qed simp

lemma clear_event_queues_bumps:
  "pool_at w i = Some q \<Longrightarrow> pool_at (clear_event_queues w) i = Some (pool_clear q)"
  by (simp add: clear_event_queues_def pool_at_def split: if_splits)

text \<open>A registered type keeps its id and its pool through every step of the bus.\<close>

lemma registered_gen_le:
  assumes m: "map_of (static_ids (registry w)) ty = Some i" and g: "get_event_handler ty' w = (i', w1)"
  shows "map_of (static_ids (registry w1)) ty = Some i"
  using get_event_id_keeps [OF get_event_handler_eq(1) [OF g] m] .

lemma clear_event_queues_only_bumps:
  assumes "map_of (static_ids (registry w)) ty = Some i" and "pool_at w i = Some q" and "ty \<in> set tys"
  shows "vgen (pqueue q) < vgen (pqueue (handler (clear_event_queues_only tys w) i))"
  using assms
proof (induction tys arbitrary: w q)
  case Nil
  then show ?case by simp
next
  case (Cons ty' tys)
  obtain i' w1 where g: "get_event_handler ty' w = (i', w1)" by (cases "get_event_handler ty' w")
  let ?w2 = "map_pool i' pool_clear w1"
  have rest: "clear_event_queues_only (ty' # tys) w = clear_event_queues_only tys ?w2" using g by simp
  have m2: "map_of (static_ids (registry ?w2)) ty = Some i"
    using registered_gen_le [OF Cons.prems(1) g] by simp
  show ?case
  proof (cases "ty' = ty")
    case True
    with g Cons.prems(1,2) have "i' = i" "w1 = w" by (simp_all add: get_event_handler_existing)
    with Cons.prems(2) have p2: "pool_at ?w2 i = Some (pool_clear q)" by simp
    have "gen_le ?w2 (clear_event_queues_only tys ?w2)" by (rule gen_le_clear_event_queues_only)
    from gen_le_pool [OF this p2] obtain p' where
      "pool_at (clear_event_queues_only tys ?w2) i = Some p'" "Suc (vgen (pqueue q)) \<le> vgen (pqueue p')"
      by auto
    with rest show ?thesis by (simp add: handler_Some)
  next
    case False
    with Cons.prems(3) have ty: "ty \<in> set tys" by simp
    have "gen_le w ?w2"
      by (rule gen_le_trans [OF gen_le_get_event_handler [OF g] gen_le_map_pool]) simp
    from gen_le_pool [OF this Cons.prems(2)] obtain q2 where
      q2: "pool_at ?w2 i = Some q2" "vgen (pqueue q) \<le> vgen (pqueue q2)" by auto
    from Cons.IH [OF m2 q2(1) ty] q2(2) rest show ?thesis by simp
  qed
qed

lemma bus_call_clears_bumps:
  assumes m: "map_of (static_ids (registry x)) ty = Some i" and q: "pool_at x i = Some q"
    and c: "clears_queue ty a" and call: "bus_call run a x = Inr y"
  shows "vgen (pqueue q) < vgen (pqueue (handler y i))"
proof (cases a)
  case ClearEventQueues
  with call have "y = clear_event_queues x" by simp
  with clear_event_queues_bumps [OF q] have "pool_at y i = Some (pool_clear q)" by simp
  then show ?thesis by (simp add: handler_Some)
next
  case (ClearEventQueuesOf tys)
  with call c have "y = clear_event_queues_only tys x" "ty \<in> set tys" by simp_all
  then show ?thesis by (simp add: clear_event_queues_only_bumps [OF m q])
qed (use c in simp_all)

lemma exec_actions_lifecycle:
  "exec_actions (run_callable f p) as x = Inr y \<Longrightarrow> gen_le x y \<and> registry_le x y"
  using exec_actions_order [OF lifecycle_order run_callable_order [OF lifecycle_order]] by blast

lemma map_of_registry_le:
  "registry_le x y \<Longrightarrow> map_of (static_ids (registry x)) ty = Some i \<Longrightarrow>
   map_of (static_ids (registry y)) ty = Some i"
  by (auto simp: registry_le_def map_of_append map_add_def)

lemma pool_dispatch_reentrant_clear:
  assumes reg: "map_of (static_ids (registry w)) ty = Some i" and pool: "pool_at w i = Some q"
    and first: "slots (psignal q) = (k, h) # ss" "pool_events q = e # es"
    and body: "a \<in> set (p h e)" and c: "clears_queue ty a"
  shows "\<exists>err. pool_dispatch_queued_events (run_callable f p) i w = Inl err"
proof (rule pool_dispatch_first_call_stale [OF _ _ pool _ run_callable_gen_mono])
  from pool first show "slots (psignal (handler w i)) = (k, h) # ss" "pool_events (handler w i) = e # es"
    by (simp_all add: handler_Some)
  fix y assume y: "run_callable f p h e (log_call h i e w) = Inr y"
  then obtain f0 where f: "f = Suc f0" by (cases f) auto
  from body obtain xs ys where split: "p h e = xs @ a # ys" by (blast dest: split_list)
  let ?w1 = "log_call h i e w"
  from y f split obtain x1 x2 where x1: "exec_actions (run_callable f0 p) xs ?w1 = Inr x1"
    and x2: "bus_call (run_callable f0 p) a x1 = Inr x2"
    and rest: "exec_actions (run_callable f0 p) ys x2 = Inr y"
    by (auto simp: exec_actions_append bindE_eq_Inr)
  have p1: "pool_at ?w1 i = Some q" "map_of (static_ids (registry ?w1)) ty = Some i"
    using pool reg by (simp_all add: log_call_def)
  from exec_actions_lifecycle [OF x1] have "gen_le ?w1 x1" "registry_le ?w1 x1" by simp_all
  with p1 obtain q1 where q1: "pool_at x1 i = Some q1" "vgen (pqueue q) \<le> vgen (pqueue q1)"
    and m1: "map_of (static_ids (registry x1)) ty = Some i"
    by (blast dest: gen_le_pool map_of_registry_le)
  from bus_call_clears_bumps [OF m1 q1(1) c x2] q1(2)
  have lt: "vgen (pqueue q) < vgen (pqueue (handler x2 i))" by simp
  from bus_call_order [OF gen_order run_callable_gen_mono x2] q1(1) obtain q2 where "pool_at x2 i = Some q2"
    by (blast dest: gen_le_pool)
  then have "pool_at x2 i = Some (handler x2 i)" by (simp add: handler_Some)
  with exec_actions_lifecycle [OF rest] obtain q3 where "pool_at y i = Some q3"
    "vgen (pqueue (handler x2 i)) \<le> vgen (pqueue q3)" by (blast dest: gen_le_pool)
  with lt show "vgen (pqueue q) < vgen (pqueue (handler y i))" by (simp add: handler_Some)
qed

text \<open>
  C6: \<^verbatim>\<open>DispatchQueuedEvents()\<close> never returns normally when the first callable it
  invokes clears the queue being dispatched (\<^verbatim>\<open>ClearEventQueues()\<close>, or
  \<^verbatim>\<open>ClearEventQueues<...>()\<close> naming the type) anywhere in its body, all pools of
  smaller id having nothing pending: \<^verbatim>\<open>mEventQueue.clear()\<close> invalidates the
  range-for over the queue, so the behaviour is undefined (or the stack is exhausted
  first).
\<close>

theorem dispatch_reentrant_clear_undefined:
  assumes "map_of (static_ids (registry w)) ty = Some i" and "pool_at w i = Some q"
    and "\<forall>j<i. pool_events (handler w j) = []"
    and "slots (psignal q) = (k, h) # ss" and "pool_events q = e # es"
    and "a \<in> set (p h e)" and "clears_queue ty a"
  shows "\<exists>err. bus_exec p f DispatchQueuedEvents w = Inl err"
proof -
  have "\<exists>err. dispatch_queued_events (run_callable f p) w = Inl err"
  proof (rule dispatch_stale_at_first_pending [OF assms(2,3)])
    fix w'' assume "pool_at w'' i = Some q" and "registry w'' = registry w"
    with assms(1,4-7) show "\<exists>err. pool_dispatch_queued_events (run_callable f p) i w'' = Inl err"
      by (intro pool_dispatch_reentrant_clear [of w'' ty i q k h ss e es a p]) simp_all
  qed
  then show ?thesis by (simp add: bus_exec_def)
qed

theorem dispatch_reentrant_clear_undefined_witness:
  "\<exists>err. bus_exec (\<lambda>(h::nat) (e::int). [ClearEventQueues]) 1
     DispatchQueuedEvents (enqueue_event CHR ''a'' 5 (snd (subscribe_to_event CHR ''a'' 7 world_init))) = Inl err"
proof -
  let ?w = "enqueue_event CHR ''a'' (5::int) (snd (subscribe_to_event CHR ''a'' (7::nat) world_init))"
  have m: "map_of (static_ids (registry ?w)) CHR ''a'' = Some 0" by (simp add: eval_simps)
  have q: "pool_at ?w 0 = Some \<lparr>psignal = \<lparr>slots = [(0, 7)], next_slot = 1\<rparr>,
      pqueue = \<lparr>velems = [5], vgen = 1\<rparr>\<rparr>"
    by (simp add: eval_simps)
  show ?thesis
    by (rule dispatch_reentrant_clear_undefined [OF m q, where a = ClearEventQueues])
      (simp_all add: pool_events_def)
qed

end
