(* ===== verification/Lazy.thy ===== *)
theory Lazy
  imports Reentrancy
begin

text \<open>
  Lazy creation of pools by the selective clear. \<^verbatim>\<open>ClearEventQueues<Event...>()\<close>
  (lines 217--221) resolves each named type through \<^verbatim>\<open>GetEventHandler\<close> (lines
  166--178), which draws an id and allocates a pool for a type never seen before. The
  specification states as an invariant that a pool exists only for types that were
  triggered, enqueued or subscribed to, and flags the side effect of the selective
  operations as an open question (section 4.3). The theorem of this theory settles
  what the code does for the selective clear (the selective flush cannot be
  instantiated, see theory \<open>Exec\<close>): clearing an unseen type registers it with the
  next id and leaves an empty pool there, invokes no callable, and changes no other
  pool.
\<close>

lemma get_event_handler_unseen:
  assumes wf: "world_wf w" and none: "map_of (static_ids (registry w)) ty = None"
    and g: "get_event_handler ty w = (i, w1)"
  shows "i = unique_id (registry w)" and "pool_at w1 i = Some pool_new"
    and "map_of (static_ids (registry w1)) ty = Some i"
proof -
  note eq = get_event_handler_eq [OF g]
  from eq(1) [symmetric] none have i: "i = unique_id (registry w)"
    and r: "registry w1 = (registry w)\<lparr>unique_id := Suc (unique_id (registry w)),
      static_ids := static_ids (registry w) @ [(ty, unique_id (registry w))]\<rparr>"
    by (simp_all add: get_event_id_fresh)
  from i show "i = unique_id (registry w)" .
  from wf i have "pool_at w i = None"
    by (simp add: world_wf_def pool_at_def)
  with eq(2) show "pool_at w1 i = Some pool_new" by (simp add: handler_def)
  from r i none show "map_of (static_ids (registry w1)) ty = Some i" by (simp add: map_of_append map_add_def)
qed

text \<open>
  C22: A selective clear naming only an event type the bus has never seen registers the type with the next id and creates an empty pool for it
  (no bound callable, no pending event), invokes no callable, and leaves every other
  pool as it was.
\<close>

theorem clear_unseen_creates_pool:
  assumes "world_wf w" and "map_of (static_ids (registry w)) ty = None"
  shows "\<exists>w'. bus_exec p f (ClearEventQueuesOf [ty]) w = Inr w' \<and> calls w' = calls w \<and>
     map_of (static_ids (registry w')) ty = Some (unique_id (registry w)) \<and>
     pool_at w' (unique_id (registry w)) = Some (pool_clear pool_new) \<and>
     (\<forall>j. j \<noteq> unique_id (registry w) \<longrightarrow> pool_at w' j = pool_at w j)"
proof -
  obtain i w1 where g: "get_event_handler ty w = (i, w1)" by (cases "get_event_handler ty w")
  note u = get_event_handler_unseen [OF assms(1,2) g]
  have res: "bus_exec p f (ClearEventQueuesOf [ty]) w = Inr (map_pool i pool_clear w1)"
    using g by (simp add: bus_exec_def)
  show ?thesis
  proof (intro exI conjI allI impI)
    show "bus_exec p f (ClearEventQueuesOf [ty]) w = Inr (map_pool i pool_clear w1)" by (fact res)
    show "calls (map_pool i pool_clear w1) = calls w" using get_event_handler_eq(4) [OF g] by simp
    show "map_of (static_ids (registry (map_pool i pool_clear w1))) ty = Some (unique_id (registry w))"
      using u(1,3) by simp
    show "pool_at (map_pool i pool_clear w1) (unique_id (registry w)) = Some (pool_clear pool_new)"
      using u(1,2) by simp
    fix j assume "j \<noteq> unique_id (registry w)"
    with u(1) get_event_handler_eq(3) [OF g] show "pool_at (map_pool i pool_clear w1) j = pool_at w j"
      by simp
  qed
qed

theorem clear_unseen_creates_pool_witness:
  "\<exists>w'. bus_exec (\<lambda>(h::nat) (e::int). []) 1 (ClearEventQueuesOf [CHR ''a'']) world_init = Inr w' \<and>
     calls w' = calls (world_init :: (char, nat, int) world) \<and>
     map_of (static_ids (registry w')) CHR ''a'' = Some (unique_id (registry (world_init :: (char, nat, int) world))) \<and>
     pool_at w' (unique_id (registry (world_init :: (char, nat, int) world))) = Some (pool_clear pool_new) \<and>
     (\<forall>j. j \<noteq> unique_id (registry (world_init :: (char, nat, int) world)) \<longrightarrow>
        pool_at w' j = pool_at (world_init :: (char, nat, int) world) j)"
proof -
  have "map_of (static_ids (registry (world_init :: (char, nat, int) world))) CHR ''a'' = None"
    by (simp add: eval_simps)
  from clear_unseen_creates_pool [OF world_wf_init this,
      where p = "\<lambda>(h::nat) (e::int). []" and f = 1]
  show ?thesis by simp
qed

end
