(* ===== verification/Isolation.thy ===== *)
theory Isolation
  imports Safety Delivery Clearing
begin

text \<open>
  A testable property of section 8 of the specification that holds whatever the
  callables do: after \<^verbatim>\<open>ClearEventQueues()\<close> (lines 223--228) a
  \<^verbatim>\<open>DispatchQueuedEvents()\<close> (lines 210--215) invokes no callable at all. The theory
  also shows what one pool's flush changes when the callables only trigger types whose
  pools exist (\<open>pool_dispatch_loop_isolated\<close>: that pool's queue is cleared and
  nothing else of \<^verbatim>\<open>mEventPools\<close> changes), which theory \<open>Ranked\<close> uses.
\<close>

lemma event_pools_map_pool_cong:
  "event_pools x = event_pools w \<Longrightarrow> event_pools (map_pool i f x) = event_pools (map_pool i f w)"
  by (simp add: map_pool_def set_pool_def pool_at_def split: option.split)

lemma pool_dispatch_loop_isolated:
  "keeps_pools K run \<Longrightarrow> registered K w \<Longrightarrow> vgen (pqueue (handler w i)) = g \<Longrightarrow>
   pool_dispatch_loop run i j n g w = Inr w' \<Longrightarrow>
   registry w' = registry w \<and> event_pools w' = event_pools (map_pool i pool_clear w)"
proof (induction run i j n g w rule: pool_dispatch_loop.induct)
  case (1 run i j n g w)
  let ?q = "pqueue (handler w i)"
  show ?case
  proof (cases "n \<le> j")
    case True
    with "1.prems"(3,4) show ?thesis by (subst (asm) pool_dispatch_loop.simps) (auto simp: Let_def)
  next
    case False
    let ?m = "invoke_slots run i (slots (psignal (handler w i))) (velems ?q ! j) w"
    from "1.prems"(3,4) False obtain x where x: "?m = Inr x"
      and rest: "pool_dispatch_loop run i (Suc j) n g x = Inr w'"
      by (subst (asm) pool_dispatch_loop.simps) (auto simp: Let_def bindE_eq_Inr)
    have "ok_result same_pools w ?m" by (rule invoke_slots_keeps [OF "1.prems"(1,2)])
    with x have sp: "same_pools w x" by simp
    have "registry w' = registry x \<and> event_pools w' = event_pools (map_pool i pool_clear x)"
    proof (rule "1.IH" [OF refl _ _ x "1.prems"(1) _ _ rest])
      show "registered K x" using "1.prems"(2) sp by (rule registered_same_pools)
      show "vgen (pqueue (handler x i)) = g" using "1.prems"(3) sp by (simp add: same_pools_handler)
    qed (use "1.prems"(3) False in simp_all)
    moreover from sp have "event_pools (map_pool i pool_clear x) = event_pools (map_pool i pool_clear w)"
      by (intro event_pools_map_pool_cong) (simp add: same_pools_def)
    ultimately show ?thesis using sp by (simp add: same_pools_def)
  qed
qed

lemma pool_at_event_pools_eq:
  "event_pools w' = event_pools w \<Longrightarrow> pool_at w' i = pool_at w i"
  by (simp add: pool_at_def)

lemma dispatch_loop_all_empty:
  assumes "n = length (velems (event_pools w))" and "g = vgen (event_pools w)" and "j \<le> n"
    and "\<forall>l. pool_events (handler w l) = []"
  shows "dispatch_loop run j n g w = Inr (clear_queues_from j w)"
  using assms
proof (induction "n - j" arbitrary: j w)
  case 0
  then show ?case by (subst dispatch_loop.simps) (simp add: clear_queues_from_end)
next
  case (Suc m)
  from Suc.hyps Suc.prems have j: "j < n" by simp
  have pj: "pool_at w j = velems (event_pools w) ! j"
    using Suc.prems j by (simp add: pool_at_def)
  let ?w1 = "map_pool j pool_clear w"
  have step: "clear_queues_from (Suc j) ?w1 = clear_queues_from j w"
    using clear_queues_from_step [of j w] Suc.prems j by simp
  have ih: "dispatch_loop run (Suc j) n g ?w1 = Inr (clear_queues_from (Suc j) ?w1)"
  proof (rule Suc.hyps(1))
    show "\<forall>l. pool_events (handler ?w1 l) = []"
      using Suc.prems(4) by (auto simp: handler_def split: option.split)
  qed (use Suc.hyps(2) Suc.prems j in simp_all)
  show ?case
  proof (cases "velems (event_pools w) ! j")
    case None
    then have "?w1 = w" by (simp add: map_pool_def pj)
    with None ih step Suc.prems j show ?thesis by (subst dispatch_loop.simps) simp
  next
    case (Some q)
    with ih step Suc.prems j show ?thesis
      by (subst dispatch_loop.simps) (simp add: pool_dispatch_queued_events_empty)
  qed
qed

lemma pool_at_clear_event_queues:
  "pool_at (clear_event_queues w) i = map_option pool_clear (pool_at w i)"
  by (simp add: clear_event_queues_def pool_at_def)

lemma handler_clear_event_queues_psignal:
  "psignal (handler (clear_event_queues w) i) = psignal (handler w i)"
  by (simp add: handler_def pool_at_clear_event_queues split: option.split)

lemma exec_enqueues:
  "exec_actions run (map (EnqueueEvent ty) es) w = Inr (fold (enqueue_event ty) es w)"
  by (induction es arbitrary: w) simp_all

lemma handler_enqueue_event_psignal:
  "psignal (handler (enqueue_event ty e w) i) = psignal (handler w i)"
proof -
  obtain j w1 where g: "get_event_handler ty w = (j, w1)" by (cases "get_event_handler ty w")
  note eq = get_event_handler_eq [OF g]
  have "enqueue_event ty e w = map_pool j (pool_enqueue e) w1" using g by (simp add: enqueue_event_def)
  then show ?thesis using eq(2,3) by (cases "i = j") (simp_all add: handler_def)
qed

lemma fold_enqueue_calls: "calls (fold (enqueue_event ty) es w) = calls w"
proof (induction es arbitrary: w)
  case (Cons e es)
  obtain j w1 where g: "get_event_handler ty w = (j, w1)" by (cases "get_event_handler ty w")
  from get_event_handler_eq(4) [OF g] have "calls (enqueue_event ty e w) = calls w"
    using g by (simp add: enqueue_event_def)
  with Cons.IH [of "enqueue_event ty e w"] show ?case by simp
qed simp

lemma fold_enqueue_psignal:
  "psignal (handler (fold (enqueue_event ty) es w) i) = psignal (handler w i)"
  by (induction es arbitrary: w) (simp_all add: handler_enqueue_event_psignal)

text \<open>
  C18: Clearing discards without invoking. After any number of
  \<^verbatim>\<open>EnqueueEvent<T>\<close> calls, \<^verbatim>\<open>ClearEventQueues()\<close> followed by
  \<^verbatim>\<open>DispatchQueuedEvents()\<close> returns normally and invokes no callable, whatever the
  callables do and however deep they may nest, leaves every buffer empty, and keeps
  the callables bound to every type.
\<close>

theorem clear_then_dispatch_invokes_nothing:
  "\<exists>w'. exec_actions (run_callable f p)
      (map (EnqueueEvent ty) es @ [ClearEventQueues, DispatchQueuedEvents]) w = Inr w' \<and>
    calls w' = calls w \<and> (\<forall>i. pool_events (handler w' i) = []) \<and>
    (\<forall>i. psignal (handler w' i) = psignal (handler w i))"
proof -
  let ?w1 = "fold (enqueue_event ty) es w"
  let ?w2 = "clear_event_queues ?w1"
  have empty: "\<forall>l. pool_events (handler ?w2 l) = []"
    by (simp add: handler_def pool_at_clear_event_queues split: option.split)
  have d: "dispatch_queued_events (run_callable f p) ?w2 = Inr (clear_event_queues ?w2)"
    using dispatch_loop_all_empty [OF refl refl _ empty] clear_queues_from_zero [of ?w2]
    by (simp add: dispatch_queued_events_def)
  have "exec_actions (run_callable f p)
      (map (EnqueueEvent ty) es @ [ClearEventQueues, DispatchQueuedEvents]) w =
    Inr (clear_event_queues ?w2)"
    using d by (simp add: exec_actions_append exec_enqueues)
  moreover have "calls (clear_event_queues ?w2) = calls w"
    by (simp add: clear_event_queues_def fold_enqueue_calls)
  moreover have "pool_events (handler (clear_event_queues ?w2) i) = []" for i
    by (simp add: handler_def pool_at_clear_event_queues split: option.split)
  moreover have "psignal (handler (clear_event_queues ?w2) i) = psignal (handler w i)" for i
    by (simp add: handler_clear_event_queues_psignal fold_enqueue_psignal)
  ultimately show ?thesis by blast
qed

end
