(* ===== verification/Counter32.thy ===== *)
theory Counter32
  imports Registry "HOL-Library.Word"
begin

text \<open>
  The registry at the width of the code. \<^verbatim>\<open>GetUniqueEventId\<close> (lines 8--12) keeps
  its counter in a \<^verbatim>\<open>static int\<close> and returns \<^verbatim>\<open>id++\<close>; \<^verbatim>\<open>GetEventId<Event>\<close>
  (lines 14--19) caches the result in a \<^verbatim>\<open>static int\<close>. A C++ \<^verbatim>\<open>int\<close> is a 32-bit
  two's complement value (\<open>int32\<close>, read by \<open>sint\<close>), and incrementing it past
  \<^verbatim>\<open>INT_MAX\<close> is undefined behaviour, modelled as \<open>None\<close>. \<^verbatim>\<open>GetEventHandler\<close>
  (lines 171--172) compares the \<^verbatim>\<open>int\<close> id with the \<^verbatim>\<open>size_t\<close> size of
  \<^verbatim>\<open>mEventPools\<close>, which converts the id to a 64-bit unsigned value, and resizes to
  \<^verbatim>\<open>eventHandlerIndex + 1\<close>, an \<^verbatim>\<open>int\<close> addition converted the same way
  (\<open>get_event_handler_size32\<close>). The theorems show that the \<open>nat\<close> registry of
  theory \<open>Registry\<close> is exact while fewer than \<^verbatim>\<open>INT_MAX\<close> ids have been drawn,
  that drawing one more is undefined behaviour, and that every id handed out
  reads as a non-negative \<^verbatim>\<open>int\<close> whose size arithmetic is the \<open>nat\<close> one.
\<close>

type_synonym int32 = "32 word"
type_synonym size_t = "64 word"

record 'ty registry32 =
  static_ids32 :: "('ty \<times> int32) list"
  unique_id32 :: int32

definition int_max :: int where
  "int_max = 2147483647"

definition get_unique_event_id32 :: "'ty registry32 \<Rightarrow> (int32 \<times> 'ty registry32) option" where
  "get_unique_event_id32 r =
     (if int_max < sint (unique_id32 r) + 1 then None
      else Some (unique_id32 r, r\<lparr>unique_id32 := unique_id32 r + 1\<rparr>))"

definition get_event_id32 :: "'ty \<Rightarrow> 'ty registry32 \<Rightarrow> (int32 \<times> 'ty registry32) option" where
  "get_event_id32 ty r =
     (case map_of (static_ids32 r) ty of
        Some i \<Rightarrow> Some (i, r)
      | None \<Rightarrow> (case get_unique_event_id32 r of
                  None \<Rightarrow> None
                | Some (i, r') \<Rightarrow> Some (i, r'\<lparr>static_ids32 := static_ids32 r' @ [(ty, i)]\<rparr>)))"

definition get_event_handler_size32 :: "int32 \<Rightarrow> size_t \<Rightarrow> size_t" where
  "get_event_handler_size32 idx sz = (if sz \<le> scast idx then scast (idx + 1) else sz)"

text \<open>The 32-bit image of a \<open>nat\<close> registry.\<close>

definition registry32_of :: "'ty registry \<Rightarrow> 'ty registry32" where
  "registry32_of r =
     \<lparr>static_ids32 = map (\<lambda>(t, i). (t, word_of_nat i)) (static_ids r),
      unique_id32 = word_of_nat (unique_id r)\<rparr>"

lemma sint_of_nat_int32:
  "n < 2 ^ 31 \<Longrightarrow> sint (word_of_nat n :: int32) = int n"
proof -
  assume n: "n < 2 ^ 31"
  have "(word_of_nat n :: int32) = word_of_int (int n)" by simp
  moreover have "sint (word_of_int (int n) :: int32) = signed_take_bit 31 (int n)"
    by (simp only: sint_sbintrunc') simp
  moreover have "signed_take_bit 31 (int n) = int n"
    using n by (intro signed_take_bit_int_eq_self) simp_all
  ultimately show ?thesis by (simp only:)
qed

lemma sint_succ_int32:
  "sint (i :: int32) < int_max \<Longrightarrow> sint (i + 1) = sint i + 1"
proof -
  assume lt: "sint i < int_max"
  have "- (2 ^ 31) \<le> sint i" using sint_ge [of i] by simp
  with lt have "signed_take_bit 31 (sint i + 1) = sint i + 1"
    by (intro signed_take_bit_int_eq_self) (simp_all add: int_max_def)
  then show ?thesis by (simp add: sint_word_add)
qed

lemma unat_scast_int32:
  "0 \<le> sint (i :: int32) \<Longrightarrow> unat (scast i :: size_t) = nat (sint i)"
proof -
  assume nn: "0 \<le> sint i"
  have lt: "sint i < 2 ^ 31" using sint_lt [of i] by simp
  have "(2::int) ^ 31 < 2 ^ 64" by (rule power_strict_increasing) simp_all
  with nn lt have m: "sint i mod 2 ^ 64 = sint i" by (intro mod_pos_pos_trivial) simp_all
  have "unat (scast i :: size_t) = nat (sint i mod 2 ^ LENGTH(64))"
    by (simp only: scast_eq unat_eq_nat_uint uint_word_of_int)
  with m show ?thesis by simp
qed

lemma map_of_map_snd:
  "map_of (map (\<lambda>(t, i). (t, f i)) xs) k = map_option f (map_of xs k)"
  by (induction xs) auto

lemma map_of_registry32_of:
  "map_of (static_ids32 (registry32_of r)) ty = map_option word_of_nat (map_of (static_ids r) ty)"
  by (simp add: registry32_of_def map_of_map_snd)

lemma int_max_nat: "nat int_max = 2147483647"
  by (simp add: int_max_def)

lemma get_event_id32_overflow:
  assumes "map_of (static_ids r) ty = None" and "int (unique_id r) = int_max"
  shows "get_event_id32 ty (registry32_of r) = None"
proof -
  from assms(2) have "unique_id r < 2 ^ 31" by (simp add: int_max_def)
  then have s: "sint (word_of_nat (unique_id r) :: int32) = int (unique_id r)" by (rule sint_of_nat_int32)
  from assms s show ?thesis
    by (simp add: get_event_id32_def get_unique_event_id32_def map_of_registry32_of)
      (simp add: registry32_of_def)
qed

lemma get_event_id32_ok:
  assumes "unique_id r \<le> nat int_max" and "get_event_id ty r = (i, r')"
    and "map_of (static_ids r) ty = None \<longrightarrow> int (unique_id r) \<noteq> int_max"
  shows "get_event_id32 ty (registry32_of r) = Some (word_of_nat i, registry32_of r')"
proof (cases "map_of (static_ids r) ty")
  case (Some j)
  with assms(2) have "i = j" "r' = r" by (simp_all add: get_event_id_known)
  with Some show ?thesis by (simp add: get_event_id32_def map_of_registry32_of)
next
  case None
  with assms(2) [symmetric] have i: "i = unique_id r"
    and r': "r' = r\<lparr>unique_id := Suc (unique_id r), static_ids := static_ids r @ [(ty, unique_id r)]\<rparr>"
    by (simp_all add: get_event_id_fresh)
  from assms(1,3) None have lt: "unique_id r < 2147483647" by (simp add: int_max_def)
  then have s: "sint (word_of_nat (unique_id r) :: int32) = int (unique_id r)"
    by (intro sint_of_nat_int32) simp
  have "registry32_of r' =
      (registry32_of r)\<lparr>unique_id32 := word_of_nat (unique_id r) + 1,
         static_ids32 := static_ids32 (registry32_of r) @ [(ty, word_of_nat (unique_id r))]\<rparr>"
    by (simp add: r' registry32_of_def)
  with None i lt s show ?thesis
    by (simp add: get_event_id32_def get_unique_event_id32_def map_of_registry32_of int_max_def)
      (simp add: registry32_of_def)
qed

text \<open>
  C20: The \<open>nat\<close> registry is exact for the 32-bit \<^verbatim>\<open>static int\<close> counter up to
  \<^verbatim>\<open>INT_MAX\<close>. While the counter is at most \<^verbatim>\<open>INT_MAX\<close>,
  \<^verbatim>\<open>GetEventId<Event>\<close> at the width of the code returns the \<open>nat\<close> model's id and
  registry, converted to \<^verbatim>\<open>int\<close>, except when a new type is resolved with the
  counter at \<^verbatim>\<open>INT_MAX\<close>: then \<^verbatim>\<open>id++\<close> overflows a signed \<^verbatim>\<open>int\<close>, which is
  undefined behaviour.
\<close>

theorem get_event_id32_refines:
  assumes "unique_id r \<le> nat int_max"
  shows "get_event_id32 ty (registry32_of r) =
    (if map_of (static_ids r) ty = None \<and> int (unique_id r) = int_max then None
     else Some (word_of_nat (fst (get_event_id ty r)), registry32_of (snd (get_event_id ty r))))"
proof (cases "map_of (static_ids r) ty = None \<and> int (unique_id r) = int_max")
  case True
  then show ?thesis by (simp add: get_event_id32_overflow)
next
  case False
  then have "map_of (static_ids r) ty = None \<longrightarrow> int (unique_id r) \<noteq> int_max" by blast
  moreover obtain i r' where g: "get_event_id ty r = (i, r')" by (cases "get_event_id ty r")
  ultimately have "get_event_id32 ty (registry32_of r) = Some (word_of_nat i, registry32_of r')"
    by (intro get_event_id32_ok [OF assms])
  with False g show ?thesis by simp
qed

theorem get_event_id32_refines_witness:
  "get_event_id32 CHR ''a'' (registry32_of \<lparr>static_ids = [], unique_id = 2147483647\<rparr>) = None"
proof -
  let ?r = "\<lparr>static_ids = [], unique_id = 2147483647\<rparr> :: char registry"
  have "unique_id ?r \<le> nat int_max" by (simp add: int_max_nat)
  from get_event_id32_refines [OF this, of "CHR ''a''"] show ?thesis by (simp add: int_max_def)
qed

lemma get_event_handler_size32_nat:
  assumes "0 \<le> sint idx" and "sint idx < int_max" and "n < 2 ^ 64"
  shows "unat (get_event_handler_size32 idx (word_of_nat n)) =
    (if n \<le> nat (sint idx) then Suc (nat (sint idx)) else n)"
proof -
  have un: "unat (word_of_nat n :: size_t) = n" using assms(3) by (simp add: unat_of_nat)
  have us: "unat (scast idx :: size_t) = nat (sint idx)" by (rule unat_scast_int32 [OF assms(1)])
  have s1: "sint (idx + 1) = sint idx + 1" by (rule sint_succ_int32 [OF assms(2)])
  have us1: "unat (scast (idx + 1) :: size_t) = Suc (nat (sint idx))"
    using unat_scast_int32 [of "idx + 1"] s1 assms(1) by simp
  have "(word_of_nat n \<le> (scast idx :: size_t)) = (n \<le> nat (sint idx))"
    by (simp only: word_le_nat_alt un us)
  with un us1 show ?thesis by (simp add: get_event_handler_size32_def)
qed

text \<open>
  C21: Bounds of the ids at the width of the code. In a well-formed registry whose
  counter is at most \<^verbatim>\<open>INT_MAX\<close>, every id \<^verbatim>\<open>GetEventId<Event>\<close> returns
  without overflow reads as a non-negative \<^verbatim>\<open>int\<close> below \<^verbatim>\<open>INT_MAX\<close>, so the
  \<^verbatim>\<open>int\<close>/\<^verbatim>\<open>size_t\<close> comparison and the \<^verbatim>\<open>eventHandlerIndex + 1\<close> of
  \<^verbatim>\<open>GetEventHandler\<close> compute exactly the size of the \<open>nat\<close> model: the vector is
  grown to \<open>id + 1\<close> when its size is at most \<open>id\<close> and kept otherwise.
\<close>

theorem get_event_id32_index_bounds:
  assumes "registry_wf r" and "unique_id r \<le> nat int_max"
    and "get_event_id32 ty (registry32_of r) = Some (idx, r32')" and "n < 2 ^ 64"
  shows "0 \<le> sint idx \<and> sint idx < int_max \<and>
    unat (get_event_handler_size32 idx (word_of_nat n)) =
      (if n \<le> nat (sint idx) then Suc (nat (sint idx)) else n)"
proof -
  obtain i r' where g: "get_event_id ty r = (i, r')" by (cases "get_event_id ty r")
  have ok: "map_of (static_ids r) ty = None \<longrightarrow> int (unique_id r) \<noteq> int_max"
    using assms(3) get_event_id32_overflow [of r ty] by auto
  from get_event_id32_ok [OF assms(2) g ok] assms(3) have idx: "idx = word_of_nat i" by simp
  have "i < 2147483647"
  proof (cases "map_of (static_ids r) ty")
    case None
    with g [symmetric] have "i = unique_id r" by (simp add: get_event_id_fresh)
    with None ok assms(2) show ?thesis by (simp add: int_max_def)
  next
    case (Some j)
    with g have "i = j" by (simp add: get_event_id_known)
    with registry_wf_map_of_bound [OF assms(1) Some] assms(2) show ?thesis by (simp add: int_max_nat)
  qed
  then have s: "sint idx = int i" unfolding idx by (intro sint_of_nat_int32) simp
  then have "0 \<le> sint idx" and "sint idx < int_max" using \<open>i < 2147483647\<close> by (simp_all add: int_max_def)
  with get_event_handler_size32_nat [OF this assms(4)] show ?thesis by simp
qed

theorem get_event_id32_index_bounds_witness:
  "0 \<le> sint (1 :: int32) \<and> sint (1 :: int32) < int_max \<and>
   unat (get_event_handler_size32 1 (word_of_nat 1)) = 2"
proof -
  let ?r = "\<lparr>static_ids = [(CHR ''a'', 0)], unique_id = 1\<rparr> :: char registry"
  have wf: "registry_wf ?r" by (simp add: registry_wf_def)
  have b: "unique_id ?r \<le> nat int_max" by (simp add: int_max_nat)
  have e: "get_event_id32 CHR ''b'' (registry32_of ?r) =
      Some (1, \<lparr>static_ids32 = [(CHR ''a'', 0), (CHR ''b'', 1)], unique_id32 = 2\<rparr>)"
    by (simp add: get_event_id32_def get_unique_event_id32_def registry32_of_def int_max_def)
  from get_event_id32_index_bounds [OF wf b e, of 1] show ?thesis by simp
qed

end
