(* ===== verification/Ranked.thy ===== *)
theory Ranked
  imports Isolation
begin

text \<open>
  When do re-entrant callables let the bus return? Theorem C15 shows that a callable
  re-triggering its own type exhausts the stack at every bound. Conversely, rank the
  pools by a function \<open>rk\<close> on their ids and call a program \<open>ranked\<close> in a world
  when every callable bound to pool \<open>i\<close> triggers only types whose pools rank below
  \<open>i\<close>: the nesting of \<^verbatim>\<open>TriggerEvent\<close> calls is then bounded by the rank, and
  \<^verbatim>\<open>TriggerEvent\<close> (lines 180--190) and \<^verbatim>\<open>DispatchQueuedEvents()\<close> (lines 210--215)
  return normally with a nesting bound above the ranks. The invariant carried through
  the nested calls is \<open>signals_kept\<close>: the registry, the slots of
  \<^verbatim>\<open>mEventPools\<close> that hold a pool, and every pool's signal are those of the
  starting world; only queues and the log of invocations change.
\<close>

definition ranked :: "(nat \<Rightarrow> nat) \<Rightarrow> ('ty, 'h, 'v) program \<Rightarrow> ('ty, 'h, 'v) world \<Rightarrow> bool" where
  "ranked rk p w \<longleftrightarrow>
     (\<forall>i. \<forall>(k, h) \<in> set (slots (psignal (handler w i))). \<forall>e ty' e' i'.
        TriggerEvent ty' e' \<in> set (p h e) \<longrightarrow> map_of (static_ids (registry w)) ty' = Some i' \<longrightarrow>
        rk i' < rk i)"

definition signals_kept :: "('ty, 'h, 'v) world \<Rightarrow> ('ty, 'h, 'v) world \<Rightarrow> bool" where
  "signals_kept w x \<longleftrightarrow>
     registry x = registry w \<and> (\<forall>i. map_option psignal (pool_at x i) = map_option psignal (pool_at w i))"

definition slots_return ::
  "('ty, 'h, 'v) world \<Rightarrow> ('ty, 'h, 'v) invoker \<Rightarrow> nat \<Rightarrow> bool" where
  "slots_return w run i \<longleftrightarrow>
     (\<forall>k h e z. (k, h) \<in> set (slots (psignal (handler w i))) \<longrightarrow> signals_kept w z \<longrightarrow>
        (\<exists>z'. run h e z = Inr z' \<and> same_pools z z'))"

lemma rankedD:
  "ranked rk p w \<Longrightarrow> (k, h) \<in> set (slots (psignal (handler w i))) \<Longrightarrow> TriggerEvent ty' e' \<in> set (p h e) \<Longrightarrow>
   map_of (static_ids (registry w)) ty' = Some i' \<Longrightarrow> rk i' < rk i"
  unfolding ranked_def by fast

lemma signals_kept_refl [simp]: "signals_kept w w"
  by (simp add: signals_kept_def)

lemma signals_kept_same_pools: "signals_kept w x \<Longrightarrow> same_pools x x' \<Longrightarrow> signals_kept w x'"
  by (simp add: signals_kept_def pool_at_same_pools) (simp add: same_pools_def)

lemma signals_kept_map_pool_clear: "signals_kept w x \<Longrightarrow> signals_kept w (map_pool i pool_clear x)"
  by (simp add: signals_kept_def option.map_comp comp_def)

lemma signals_kept_handler:
  "signals_kept w x \<Longrightarrow> psignal (handler x i) = psignal (handler w i)"
proof -
  assume "signals_kept w x"
  then have "map_option psignal (pool_at x i) = map_option psignal (pool_at w i)"
    by (simp add: signals_kept_def)
  then show ?thesis by (cases "pool_at x i"; cases "pool_at w i") (simp_all add: handler_def)
qed

lemma signals_kept_pool:
  "signals_kept w x \<Longrightarrow> pool_at w i = Some q \<Longrightarrow> \<exists>q'. pool_at x i = Some q' \<and> psignal q' = psignal q"
  by (cases "pool_at x i") (auto simp: signals_kept_def dest: spec [of _ i])

lemma signals_kept_registered: "signals_kept w x \<Longrightarrow> registered K w \<Longrightarrow> registered K x"
  unfolding registered_def
proof
  fix ty assume kept: "signals_kept w x" and reg: "\<forall>ty\<in>K. \<exists>i q. map_of (static_ids (registry w)) ty = Some i \<and> pool_at w i = Some q"
    and ty: "ty \<in> K"
  from reg ty obtain i q where "map_of (static_ids (registry w)) ty = Some i" "pool_at w i = Some q" by blast
  with kept signals_kept_pool [OF kept] show "\<exists>i q. map_of (static_ids (registry x)) ty = Some i \<and> pool_at x i = Some q"
    by (fastforce simp: signals_kept_def)
qed

text \<open>Returning normally through a list of calls and through a signal invocation.\<close>

lemma exec_actions_returns:
  assumes call: "\<And>a z. a \<in> set as \<Longrightarrow> signals_kept w z \<Longrightarrow> \<exists>z'. bus_call run a z = Inr z' \<and> same_pools z z'"
  shows "signals_kept w z \<Longrightarrow> \<exists>z'. exec_actions run as z = Inr z' \<and> same_pools z z'"
  using call
proof (induction as arbitrary: z)
  case (Cons a as)
  from Cons.prems(2) [of a z] Cons.prems(1) obtain z1 where z1: "bus_call run a z = Inr z1" "same_pools z z1"
    by auto
  from signals_kept_same_pools [OF Cons.prems(1) z1(2)] Cons.prems(2) obtain z2
    where "exec_actions run as z1 = Inr z2" "same_pools z1 z2"
    using Cons.IH [of z1] by auto
  with z1 show ?case by (auto intro: same_pools_trans)
qed simp

lemma invoke_slots_returns:
  assumes run: "\<And>k h z. (k, h) \<in> set ss \<Longrightarrow> signals_kept w z \<Longrightarrow> \<exists>z'. run h e z = Inr z' \<and> same_pools z z'"
  shows "signals_kept w z \<Longrightarrow> \<exists>z'. invoke_slots run i ss e z = Inr z' \<and> same_pools z z'"
  using run
proof (induction ss arbitrary: z)
  case (Cons s ss)
  obtain k h where s: "s = (k, h)" by (cases s)
  have g0: "signals_kept w (log_call h i e z)" using signals_kept_same_pools [OF Cons.prems(1)] by simp
  from Cons.prems(2) [of k h "log_call h i e z"] s g0 obtain z1
    where z1: "run h e (log_call h i e z) = Inr z1" "same_pools (log_call h i e z) z1" by auto
  then have sp1: "same_pools z z1" by (blast intro: same_pools_trans same_pools_log_call)
  have "\<exists>z2. invoke_slots run i ss e z1 = Inr z2 \<and> same_pools z1 z2"
  proof (rule Cons.IH [OF signals_kept_same_pools [OF Cons.prems(1) sp1]])
    fix k' h' z' assume "(k', h') \<in> set ss" "signals_kept w z'"
    then show "\<exists>z''. run h' e z' = Inr z'' \<and> same_pools z' z''" using Cons.prems(2) [of k' h' z'] by simp
  qed
  then obtain z2 where "invoke_slots run i ss e z1 = Inr z2" "same_pools z1 z2" by blast
  with z1 sp1 s show ?case by (auto intro: same_pools_trans)
qed simp

lemma registered_pool:
  "registered K w \<Longrightarrow> ty \<in> K \<Longrightarrow> map_of (static_ids (registry w)) ty = Some i \<Longrightarrow>
   \<exists>q. pool_at w i = Some q"
  by (fastforce simp: registered_def)

lemma trigger_event_returns:
  assumes reg: "registered K w" and ty: "ty \<in> K" and m: "map_of (static_ids (registry w)) ty = Some i"
    and slot: "\<And>k h z. (k, h) \<in> set (slots (psignal (handler w i))) \<Longrightarrow> signals_kept w z \<Longrightarrow>
      \<exists>z'. run h e z = Inr z' \<and> same_pools z z'"
    and x: "signals_kept w x"
  shows "\<exists>x'. trigger_event run ty e x = Inr x' \<and> same_pools x x'"
proof -
  from registered_pool [OF reg ty m] obtain q where q: "pool_at w i = Some q" ..
  from signals_kept_pool [OF x q] obtain q' where q': "pool_at x i = Some q'" "psignal q' = psignal q"
    by blast
  from m x have "map_of (static_ids (registry x)) ty = Some i" by (simp add: signals_kept_def)
  from get_event_handler_existing [OF this q'(1)] q' q have eq: "trigger_event run ty e x =
      invoke_slots run i (slots (psignal (handler w i))) e x"
    by (simp add: trigger_event_def pool_trigger_event_def handler_Some)
  show ?thesis unfolding eq
    by (rule invoke_slots_returns [where run = run and e = e and ss = "slots (psignal (handler w i))",
      OF slot x])
qed

lemma run_callable_ranked_returns:
  assumes p: "triggers_only K p" and reg: "registered K w" and rk: "ranked rk p w"
  shows "(k, h) \<in> set (slots (psignal (handler w i))) \<Longrightarrow> rk i < f \<Longrightarrow> signals_kept w z \<Longrightarrow>
    \<exists>z'. run_callable f p h e z = Inr z' \<and> same_pools z z'"
proof (induction f arbitrary: k h i e z)
  case 0
  then show ?case by simp
next
  case (Suc f)
  have "\<exists>z'. exec_actions (run_callable f p) (p h e) z = Inr z' \<and> same_pools z z'"
  proof (rule exec_actions_returns [OF _ Suc.prems(3)])
    fix a z1 assume a: "a \<in> set (p h e)" and z1: "signals_kept w z1"
    from p a obtain ty' e' where a': "a = TriggerEvent ty' e'" and ty': "ty' \<in> K"
      unfolding triggers_only_def by blast
    from reg ty' obtain i' where i': "map_of (static_ids (registry w)) ty' = Some i'"
      by (auto simp: registered_def)
    from rankedD [OF rk Suc.prems(1) _ i'] a a' Suc.prems(2) have "rk i' < f" by fastforce
    have "\<exists>z'. trigger_event (run_callable f p) ty' e' z1 = Inr z' \<and> same_pools z1 z'"
      by (rule trigger_event_returns [OF reg ty' i' Suc.IH [OF _ \<open>rk i' < f\<close>] z1])
    with a' show "\<exists>z'. bus_call (run_callable f p) a z1 = Inr z' \<and> same_pools z1 z'" by simp
  qed
  then show ?case by simp
qed

subsection \<open>The dispatch loops\<close>

lemma pool_dispatch_loop_returns:
  "slots_return w run i \<Longrightarrow> signals_kept w x \<Longrightarrow> vgen (pqueue (handler x i)) = g \<Longrightarrow>
    \<exists>x'. pool_dispatch_loop run i j n g x = Inr x' \<and> signals_kept w x' \<and> shape_kept x x'"
proof (induction run i j n g x rule: pool_dispatch_loop.induct)
  case (1 run i j n g x)
  show ?case
  proof (cases "n \<le> j")
    case True
    with "1.prems" show ?thesis
      by (subst pool_dispatch_loop.simps) (simp add: signals_kept_map_pool_clear shape_kept_map_pool)
  next
    case False
    let ?e = "velems (pqueue (handler x i)) ! j"
    let ?m = "invoke_slots run i (slots (psignal (handler x i))) ?e x"
    have slot: "\<exists>z'. run h ?e z = Inr z' \<and> same_pools z z'"
      if "(k, h) \<in> set (slots (psignal (handler w i)))" "signals_kept w z" for k h z
      using "1.prems"(1) that by (simp add: slots_return_def)
    have "\<exists>x1. ?m = Inr x1 \<and> same_pools x x1"
      unfolding signals_kept_handler [OF "1.prems"(2)]
      by (rule invoke_slots_returns [where run = run and e = ?e
          and ss = "slots (psignal (handler w i))", OF slot "1.prems"(2)])
    then obtain x1 where x1: "?m = Inr x1" "same_pools x x1" by blast
    have "\<exists>x'. pool_dispatch_loop run i (Suc j) n g x1 = Inr x' \<and> signals_kept w x' \<and> shape_kept x1 x'"
    proof (rule "1.IH" [OF refl _ _ x1(1) "1.prems"(1)])
      show "signals_kept w x1" by (rule signals_kept_same_pools [OF "1.prems"(2) x1(2)])
      show "vgen (pqueue (handler x1 i)) = g" using "1.prems"(3) x1(2) by (simp add: same_pools_handler)
    qed (use "1.prems"(3) False in simp_all)
    with x1 "1.prems"(3) False show ?thesis
      by (subst pool_dispatch_loop.simps) (auto simp: Let_def intro: shape_kept_trans shape_kept_same_pools)
  qed
qed

lemma dispatch_loop_returns:
  "(\<forall>i. pool_at w i \<noteq> None \<longrightarrow> slots_return w run i) \<Longrightarrow> signals_kept w x \<Longrightarrow>
   vgen (event_pools x) = g \<Longrightarrow> length (velems (event_pools x)) = n \<Longrightarrow>
   \<exists>x'. dispatch_loop run j n g x = Inr x' \<and> signals_kept w x'"
proof (induction run j n g x rule: dispatch_loop.induct)
  case (1 run j n g x)
  show ?case
  proof (cases "n \<le> j")
    case True
    with "1.prems" show ?thesis by (subst dispatch_loop.simps) simp
  next
    case False
    show ?thesis
    proof (cases "velems (event_pools x) ! j")
      case None
      with "1.prems" False have "dispatch_loop run j n g x = dispatch_loop run (Suc j) n g x"
        by (subst dispatch_loop.simps) simp
      with "1.IH"(1) [OF _ _ None "1.prems"] "1.prems"(3) False show ?thesis by simp
    next
      case (Some q)
      with "1.prems"(4) False have "pool_at x j = Some q" by (simp add: pool_at_def)
      with "1.prems"(2) have "pool_at w j \<noteq> None"
        by (cases "pool_at w j") (auto simp: signals_kept_def dest: spec [of _ j])
      with "1.prems"(1) have sr: "slots_return w run j" by blast
      have "\<exists>x1. pool_dispatch_queued_events run j x = Inr x1 \<and> signals_kept w x1 \<and> shape_kept x x1"
        unfolding pool_dispatch_queued_events_def Let_def
        by (rule pool_dispatch_loop_returns [OF sr "1.prems"(2) refl])
      then obtain x1 where x1: "pool_dispatch_queued_events run j x = Inr x1" "signals_kept w x1"
        "shape_kept x x1" by blast
      have "\<exists>x'. dispatch_loop run (Suc j) n g x1 = Inr x' \<and> signals_kept w x'"
        by (rule "1.IH"(2) [OF _ _ Some x1(1) "1.prems"(1) x1(2)])
          (use "1.prems"(3,4) False x1(3) in \<open>simp_all add: shape_kept_def\<close>)
      with x1(1) "1.prems"(3) False Some show ?thesis by (subst dispatch_loop.simps) simp
    qed
  qed
qed

lemma pool_events_handler_empty:
  "pool_at x l = None \<Longrightarrow> pool_events (handler x l) = []"
  by (simp add: handler_def pool_events_def pool_new_def vec_empty_def)

lemma dispatch_loop_empties:
  "keeps_pools K run \<Longrightarrow> registered K x \<Longrightarrow> vgen (event_pools x) = g \<Longrightarrow>
   length (velems (event_pools x)) = n \<Longrightarrow> (\<forall>l<j. pool_events (handler x l) = []) \<Longrightarrow>
   dispatch_loop run j n g x = Inr x' \<Longrightarrow> \<forall>l. pool_events (handler x' l) = []"
proof (induction run j n g x rule: dispatch_loop.induct)
  case (1 run j n g x)
  show ?case
  proof (cases "n \<le> j")
    case True
    with "1.prems"(3,6) have "x' = x" by (subst (asm) dispatch_loop.simps) simp
    show ?thesis
    proof
      fix l show "pool_events (handler x' l) = []"
      proof (cases "l < j")
        case False
        with True "1.prems"(4) \<open>x' = x\<close> have "pool_at x' l = None" by (simp add: pool_at_def)
        then show ?thesis by (rule pool_events_handler_empty)
      qed (use "1.prems"(5) \<open>x' = x\<close> in simp)
    qed
  next
    case False
    show ?thesis
    proof (cases "velems (event_pools x) ! j")
      case None
      with "1.prems"(3,4) False have pj: "pool_at x j = None" by (simp add: pool_at_def)
      from None "1.prems"(3,6) False have "dispatch_loop run (Suc j) n g x = Inr x'"
        by (subst (asm) dispatch_loop.simps) simp
      moreover have "\<forall>l<Suc j. pool_events (handler x l) = []"
        using "1.prems"(5) pool_events_handler_empty [OF pj] by (auto simp: less_Suc_eq)
      ultimately show ?thesis
        by (intro "1.IH"(1) [OF _ _ None "1.prems"(1,2)]) (use "1.prems"(3,4) False in simp_all)
    next
      case (Some q)
      from Some "1.prems"(3,6) False obtain x1 where x1: "pool_dispatch_queued_events run j x = Inr x1"
        and rest: "dispatch_loop run (Suc j) n g x1 = Inr x'"
        by (subst (asm) dispatch_loop.simps) (auto simp: bindE_eq_Inr)
      from x1 have iso: "registry x1 = registry x \<and> event_pools x1 = event_pools (map_pool j pool_clear x)"
        by (intro pool_dispatch_loop_isolated [OF "1.prems"(1,2) refl])
          (simp add: pool_dispatch_queued_events_def Let_def)
      then have at: "pool_at x1 l = pool_at (map_pool j pool_clear x) l" for l
        by (simp add: pool_at_event_pools_eq)
      have "handler x1 l = handler (map_pool j pool_clear x) l" for l by (simp add: handler_def at)
      then have empty: "\<forall>l<Suc j. pool_events (handler x1 l) = []"
        using "1.prems"(5) by (auto simp: less_Suc_eq handler_def split: option.split)
      have reg: "registered K x1"
        using "1.prems"(2) iso at by (fastforce simp: registered_def)
      show ?thesis
        by (rule "1.IH"(2) [OF _ _ Some x1 "1.prems"(1) reg _ _ empty rest])
          (use iso "1.prems"(3,4) False in simp_all)
    qed
  qed
qed

lemma ranked_slots_return:
  "triggers_only K p \<Longrightarrow> registered K w \<Longrightarrow> ranked rk p w \<Longrightarrow> rk i < f \<Longrightarrow>
   slots_return w (run_callable f p) i"
  unfolding slots_return_def by (blast intro: run_callable_ranked_returns)

text \<open>
  C10: Termination of \<^verbatim>\<open>TriggerEvent\<close> for ranked callables. When callables only
  trigger registered types and every callable bound to a pool triggers only types of
  lower-ranked pools, \<^verbatim>\<open>TriggerEvent\<close> on a registered type returns normally once the
  bound on nested callables exceeds the rank of its pool, leaving the registry and
  every pool as they were.
\<close>

theorem ranked_trigger_returns:
  assumes "triggers_only K p" and "registered K w" and "ranked rk p w"
    and "ty \<in> K" and "map_of (static_ids (registry w)) ty = Some i" and "rk i < f"
  shows "\<exists>w'. bus_exec p f (TriggerEvent ty e) w = Inr w' \<and> same_pools w w'"
proof -
  have "slots_return w (run_callable f p) i" by (rule ranked_slots_return [OF assms(1-3,6)])
  then have "\<exists>w'. trigger_event (run_callable f p) ty e w = Inr w' \<and> same_pools w w'"
    by (intro trigger_event_returns [OF assms(2,4,5) _ signals_kept_refl]) (simp add: slots_return_def)
  then show ?thesis by (simp add: bus_exec_def)
qed

theorem ranked_trigger_returns_witness:
  "\<exists>w'. bus_exec (\<lambda>(h::nat) (e::int). if h = 7 then [TriggerEvent CHR ''b'' (e + 1)] else []) 2
     (TriggerEvent CHR ''a'' 0)
     (snd (subscribe_to_event CHR ''b'' 8 (snd (subscribe_to_event CHR ''a'' 7 (world_init :: (char, nat, int) world))))) =
       Inr w' \<and>
     same_pools (snd (subscribe_to_event CHR ''b'' 8 (snd (subscribe_to_event CHR ''a'' 7
       (world_init :: (char, nat, int) world))))) w'"
proof -
  let ?p = "\<lambda>(h::nat) (e::int). if h = 7 then [TriggerEvent CHR ''b'' (e + 1)] else []"
  let ?w = "snd (subscribe_to_event CHR ''b'' 8 (snd (subscribe_to_event CHR ''a'' 7
    (world_init :: (char, nat, int) world))))"
  have t: "triggers_only {CHR ''a'', CHR ''b''} ?p" by (simp add: triggers_only_def)
  have k: "registered {CHR ''a'', CHR ''b''} ?w" by (simp add: registered_def eval_simps)
  have r: "ranked (\<lambda>i. if i = 0 then 1 else 0) ?p ?w"
    by (auto simp: ranked_def eval_simps nth_Cons' split: if_splits)
  have m: "map_of (static_ids (registry ?w)) CHR ''a'' = Some 0" by (simp add: eval_simps)
  show ?thesis by (rule ranked_trigger_returns [OF t k r _ m]) simp_all
qed

text \<open>
  C9: Termination of \<^verbatim>\<open>DispatchQueuedEvents()\<close> for ranked callables. Under the
  same conditions, with a bound on nested callables above the rank of every pool,
  \<^verbatim>\<open>DispatchQueuedEvents()\<close> returns normally (neither undefined behaviour nor stack
  exhaustion), keeping the registry, the slots of \<^verbatim>\<open>mEventPools\<close> that hold a pool
  and every bound callable, and leaving every buffer empty.
\<close>

theorem ranked_dispatch_returns:
  assumes "triggers_only K p" and "registered K w" and "ranked rk p w"
    and "\<forall>i < length (velems (event_pools w)). rk i < f"
  shows "\<exists>w'. bus_exec p f DispatchQueuedEvents w = Inr w' \<and> signals_kept w w' \<and>
    (\<forall>i. pool_events (handler w' i) = [])"
proof -
  have "\<forall>i. pool_at w i \<noteq> None \<longrightarrow> slots_return w (run_callable f p) i"
  proof (intro allI impI)
    fix i assume "pool_at w i \<noteq> None"
    then have "i < length (velems (event_pools w))" by (auto dest: pool_at_bound)
    with assms(4) have "rk i < f" by blast
    then show "slots_return w (run_callable f p) i" by (rule ranked_slots_return [OF assms(1-3)])
  qed
  from dispatch_loop_returns [OF this signals_kept_refl refl refl, of 0] obtain w'
    where r: "dispatch_loop (run_callable f p) 0 (length (velems (event_pools w))) (vgen (event_pools w)) w = Inr w'"
      and k: "signals_kept w w'" by blast
  from dispatch_loop_empties [OF run_callable_keeps [OF assms(1)] assms(2) refl refl _ r]
  have "\<forall>i. pool_events (handler w' i) = []" by simp
  with r k show ?thesis by (simp add: bus_exec_def dispatch_queued_events_def)
qed

theorem ranked_dispatch_returns_witness:
  "\<exists>w'. bus_exec (\<lambda>(h::nat) (e::int). if h = 7 then [TriggerEvent CHR ''b'' (e + 1)] else []) 2
     DispatchQueuedEvents
     (enqueue_event CHR ''b'' 6 (enqueue_event CHR ''a'' 5 (snd (subscribe_to_event CHR ''b'' 8
       (snd (subscribe_to_event CHR ''a'' 7 (world_init :: (char, nat, int) world))))))) = Inr w' \<and>
     signals_kept (enqueue_event CHR ''b'' 6 (enqueue_event CHR ''a'' 5 (snd (subscribe_to_event CHR ''b'' 8
       (snd (subscribe_to_event CHR ''a'' 7 (world_init :: (char, nat, int) world))))))) w' \<and>
     (\<forall>i. pool_events (handler w' i) = [])"
proof -
  let ?p = "\<lambda>(h::nat) (e::int). if h = 7 then [TriggerEvent CHR ''b'' (e + 1)] else []"
  let ?w = "enqueue_event CHR ''b'' 6 (enqueue_event CHR ''a'' 5 (snd (subscribe_to_event CHR ''b'' 8
       (snd (subscribe_to_event CHR ''a'' 7 (world_init :: (char, nat, int) world))))))"
  have t: "triggers_only {CHR ''a'', CHR ''b''} ?p" by (simp add: triggers_only_def)
  have k: "registered {CHR ''a'', CHR ''b''} ?w" by (simp add: registered_def eval_simps)
  have r: "ranked (\<lambda>i. if i = 0 then 1 else 0) ?p ?w"
    by (auto simp: ranked_def eval_simps nth_Cons' split: if_splits)
  have b: "\<forall>i < length (velems (event_pools ?w)). (if i = 0 then 1 else 0) < (2::nat)"
    by (simp add: eval_simps)
  show ?thesis by (rule ranked_dispatch_returns [OF t k r b])
qed

end
