(* ===== verification/Revocation.thy ===== *)
theory Revocation
  imports Subscription Delivery
begin

text \<open>
  The specification's revocation property (section 8): after
  \<^verbatim>\<open>UnsubscribeFromEvent(c)\<close> (lines 155--158) neither \<^verbatim>\<open>TriggerEvent\<close> nor
  \<^verbatim>\<open>DispatchQueuedEvents\<close> invokes the callable bound to \<open>c\<close>. Stated as a
  composition of \<^verbatim>\<open>SubscribeToEvent\<close>, \<^verbatim>\<open>UnsubscribeFromEvent\<close> and the two
  delivering operations: subscribing and then unsubscribing with the returned
  connection is unobservable, since a trigger or a dispatch afterwards performs exactly
  the invocations it performs on the bus the subscription started from. The bus after
  the round trip differs from that one only in the signal's key counter, which
  \<open>same_view\<close> does not see: it compares registry, log, and, for every slot of
  \<^verbatim>\<open>mEventPools\<close>, the bound callables and the pending events.
\<close>

definition same_view :: "('ty, 'h, 'v) world \<Rightarrow> ('ty, 'h, 'v) world \<Rightarrow> bool" where
  "same_view x y \<longleftrightarrow>
     registry x = registry y \<and> calls x = calls y \<and>
     length (velems (event_pools x)) = length (velems (event_pools y)) \<and>
     (\<forall>j. map_option (\<lambda>q. (slots (psignal q), pool_events q)) (pool_at x j) =
          map_option (\<lambda>q. (slots (psignal q), pool_events q)) (pool_at y j))"

lemma same_view_pool:
  assumes "same_view x y"
  shows "slots (psignal (handler x j)) = slots (psignal (handler y j)) \<and>
         pool_events (handler x j) = pool_events (handler y j)"
proof -
  from assms have "map_option (\<lambda>q. (slots (psignal q), pool_events q)) (pool_at x j) =
      map_option (\<lambda>q. (slots (psignal q), pool_events q)) (pool_at y j)"
    by (simp add: same_view_def)
  then show ?thesis by (cases "pool_at x j"; cases "pool_at y j") (simp_all add: handler_def)
qed

lemma same_view_queued_deliveries:
  assumes v: "same_view x y"
  shows "queued_deliveries x = queued_deliveries y"
proof -
  have "(case pool_at x i of None \<Rightarrow> [] | Some q \<Rightarrow> pool_deliveries i q) =
        (case pool_at y i of None \<Rightarrow> [] | Some q \<Rightarrow> pool_deliveries i q)" for i
  proof -
    from v have "map_option (\<lambda>q. (slots (psignal q), pool_events q)) (pool_at x i) =
        map_option (\<lambda>q. (slots (psignal q), pool_events q)) (pool_at y i)"
      by (simp add: same_view_def)
    then show ?thesis
      by (cases "pool_at x i"; cases "pool_at y i") (simp_all add: pool_deliveries_def)
  qed
  with v show ?thesis
    by (simp add: queued_deliveries_def queued_deliveries_from_def same_view_def)
qed

lemma unsubscribe_same_view:
  assumes "world_wf w" and "get_event_handler ty w = (i, w0)"
    and "subscribe_to_event ty h w = (c, w1)"
  shows "same_view (unsubscribe_from_event c w1) w0"
proof -
  from unsubscribe_subscribe [OF assms] obtain q where u: "unsubscribe_from_event c w1 = set_pool i q w0"
    and sl: "slots (psignal q) = slots (psignal (handler w0 i))" and pq: "pqueue q = pqueue (handler w0 i)"
    and p: "pool_at w0 i = Some (handler w0 i)" by blast
  from p have "i < length (velems (event_pools w0))" by (rule pool_at_bound)
  with sl pq p show ?thesis unfolding u by (auto simp: same_view_def pool_events_def)
qed

lemma trigger_observers_same_view:
  assumes o: "observers p" and f: "0 < f" and v: "same_view x y"
  shows "\<exists>x' y'. bus_exec p f (TriggerEvent ty e) x = Inr x' \<and>
    bus_exec p f (TriggerEvent ty e) y = Inr y' \<and> calls x' = calls y'"
proof -
  obtain i x1 where gx: "get_event_handler ty x = (i, x1)" by (cases "get_event_handler ty x")
  obtain i' y1 where gy: "get_event_handler ty y = (i', y1)" by (cases "get_event_handler ty y")
  from v get_event_handler_eq(1) [OF gx] get_event_handler_eq(1) [OF gy] have "i' = i"
    by (simp add: same_view_def)
  with o f gx gy v same_view_pool [OF v, of i] show ?thesis
    by (simp add: bus_exec_def run_callable_observers trigger_event_def pool_trigger_event_silent
        get_event_handler_pool get_event_handler_eq(4) same_view_def)
qed

lemma dispatch_observers_same_view:
  assumes o: "observers p" and f: "0 < f" and v: "same_view x y"
  shows "\<exists>x' y'. bus_exec p f DispatchQueuedEvents x = Inr x' \<and>
    bus_exec p f DispatchQueuedEvents y = Inr y' \<and> calls x' = calls y'"
  using o f v same_view_queued_deliveries [OF v]
  by (simp add: bus_exec_def run_callable_observers dispatch_queued_events_silent same_view_def)

text \<open>
  C16: Revocation. With callables that only observe, subscribing a callable to a type
  and unsubscribing it with the returned connection is unobservable: afterwards
  \<^verbatim>\<open>TriggerEvent\<close> of any type and \<^verbatim>\<open>DispatchQueuedEvents()\<close> log exactly the
  invocations they log on the bus the subscription started from (after
  \<^verbatim>\<open>GetEventHandler\<close> created the type's pool), so the revoked callable is never
  invoked through the revoked binding.
\<close>

theorem unsubscribe_unobservable:
  assumes "observers p" and "0 < f" and "world_wf w"
    and "get_event_handler ty w = (i, w0)" and "subscribe_to_event ty h w = (c, w1)"
  shows "(\<exists>x y. bus_exec p f (TriggerEvent ty' e) (unsubscribe_from_event c w1) = Inr x \<and>
            bus_exec p f (TriggerEvent ty' e) w0 = Inr y \<and> calls x = calls y) \<and>
         (\<exists>x y. bus_exec p f DispatchQueuedEvents (unsubscribe_from_event c w1) = Inr x \<and>
            bus_exec p f DispatchQueuedEvents w0 = Inr y \<and> calls x = calls y)"
proof -
  have v: "same_view (unsubscribe_from_event c w1) w0" by (rule unsubscribe_same_view [OF assms(3-5)])
  show ?thesis
    using trigger_observers_same_view [OF assms(1,2) v] dispatch_observers_same_view [OF assms(1,2) v]
    by blast
qed

theorem unsubscribe_unobservable_witness:
  "(\<exists>x y. bus_exec (\<lambda>(h::nat) (e::int). []) 1 (TriggerEvent CHR ''a'' 3)
        (unsubscribe_from_event (Connection 0 1) (snd (subscribe_to_event CHR ''a'' 8
          (enqueue_event CHR ''a'' 5 (snd (subscribe_to_event CHR ''a'' 7 world_init)))))) = Inr x \<and>
      bus_exec (\<lambda>(h::nat) (e::int). []) 1 (TriggerEvent CHR ''a'' 3)
        (enqueue_event CHR ''a'' 5 (snd (subscribe_to_event CHR ''a'' 7 world_init))) = Inr y \<and>
      calls x = calls y) \<and>
   (\<exists>x y. bus_exec (\<lambda>(h::nat) (e::int). []) 1 DispatchQueuedEvents
        (unsubscribe_from_event (Connection 0 1) (snd (subscribe_to_event CHR ''a'' 8
          (enqueue_event CHR ''a'' 5 (snd (subscribe_to_event CHR ''a'' 7 world_init)))))) = Inr x \<and>
      bus_exec (\<lambda>(h::nat) (e::int). []) 1 DispatchQueuedEvents
        (enqueue_event CHR ''a'' 5 (snd (subscribe_to_event CHR ''a'' 7 world_init))) = Inr y \<and>
      calls x = calls y)"
proof -
  let ?p = "\<lambda>(h::nat) (e::int). [] :: (char, nat, int) action list"
  let ?w = "enqueue_event CHR ''a'' (5::int) (snd (subscribe_to_event CHR ''a'' (7::nat)
    (world_init :: (char, nat, int) world)))"
  have o: "observers ?p" by (simp add: observers_def)
  have wf: "world_wf ?w" by (simp add: world_wf_def registry_wf_def pool_wf_def signal_wf_def eval_simps)
  have g: "get_event_handler CHR ''a'' ?w = (0, ?w)" by (simp add: eval_simps)
  have s: "subscribe_to_event CHR ''a'' 8 ?w = (Connection 0 1, snd (subscribe_to_event CHR ''a'' 8 ?w))"
    by (simp add: eval_simps signal_bind_def)
  from unsubscribe_unobservable [OF o _ wf g s, of 1] show ?thesis by simp
qed

end
