(* ===== verification/Spec2Isabelle.thy ===== *)
theory Spec2Isabelle
  imports Refinement Selective Lifecycle Ordering Clearing Lazy Isolation Counter32 Ranked Revocation
begin

text \<open>
  \<^bold>\<open>A verification model of the type-indexed event bus of \<^verbatim>\<open>src/event bus/EventBus.hpp\<close>.\<close>

  \<^bold>\<open>The program.\<close> The header declares a process-wide event-type registry
  (\<^verbatim>\<open>GetUniqueEventId\<close>, \<^verbatim>\<open>GetEventId<Event>\<close>, lines 8--19), the class
  \<^verbatim>\<open>EventBus\<close> with its nested \<^verbatim>\<open>EventPool<Event>\<close> (one per event type: a
  \<^verbatim>\<open>Signal<void(Event)>\<close> and a \<^verbatim>\<open>std::vector<Event>\<close> queue, lines 24--83), and
  the bus's members (lines 85--228): \<^verbatim>\<open>GetEventHandler\<close> maps a type to its id and
  lazily creates the pool in \<^verbatim>\<open>mEventPools\<close>; \<^verbatim>\<open>TriggerEvent\<close> invokes the bound
  callables at once; \<^verbatim>\<open>EnqueueEvent\<close> appends to the queue;
  \<^verbatim>\<open>DispatchQueuedEvents\<close> flushes the queues into the signals;
  \<^verbatim>\<open>ClearEventQueues\<close> empties them; \<^verbatim>\<open>SubscribeToEvent\<close> and
  \<^verbatim>\<open>UnsubscribeFromEvent\<close> bind and release callables. Callables may call back into the
  bus, so the operations are re-entrant.

  \<^bold>\<open>The theories.\<close>
  \<^item> \<open>Prelude\<close>: errors as values (\<open>bus_error\<close>: \<open>IteratorInvalidated\<close> for undefined
    behaviour through an invalidated iterator, \<open>StackExhausted\<close> for callbacks nested
    beyond the fuel, \<open>IllFormed\<close> for a call the compiler rejects), sequencing \<open>bindE\<close> with its congruence rule, the collections
    \<open>bind_simps\<close> and \<open>eval_simps\<close>.
  \<^item> \<open>Vector\<close>: the contract of \<^verbatim>\<open>std::vector\<close> the code relies on (a library
    model): elements and a generation counter that every iterator-invalidating member
    function increments.
  \<^item> \<open>Registry\<close>: \<open>get_unique_event_id\<close>, \<open>get_event_id\<close> over the record
    \<open>registry\<close> (the function-local statics); ids are stable, dense and injective.
  \<^item> \<open>Counter32\<close>: the registry at the width of the code: the
    \<^verbatim>\<open>static int\<close> counter as a 32-bit word (\<open>registry32\<close>,
    \<open>get_unique_event_id32\<close>, \<open>get_event_id32\<close>, signed overflow of \<^verbatim>\<open>id++\<close>
    as \<open>None\<close>) and the \<^verbatim>\<open>int\<close>/\<^verbatim>\<open>size_t\<close> arithmetic of
    \<^verbatim>\<open>GetEventHandler\<close> (\<open>get_event_handler_size32\<close>); the \<open>nat\<close> registry is
    exact up to \<^verbatim>\<open>INT_MAX\<close> ids and the next fresh type is undefined behaviour.
  \<^item> \<open>Signal\<close>: the dispatch point of \<^verbatim>\<open>signal.hpp\<close> (not under \<^verbatim>\<open>src/\<close>),
    modelled from its contract in the specification: slots in subscription order,
    \<open>signal_bind\<close>, \<open>signal_disconnect\<close>.
  \<^item> \<open>Pool\<close>: the record \<open>pool\<close>, \<open>pool_enqueue\<close> (both \<^verbatim>\<open>EnqueueEvent\<close>
    overloads), \<open>pool_clear\<close> (\<^verbatim>\<open>ClearEventQueue\<close>).
  \<^item> \<open>Bus\<close>: the record \<open>world\<close> (registry, \<^verbatim>\<open>mEventPools\<close> as a vector of
    \<open>pool option\<close>, and the log \<open>calls\<close> of callable invocations),
    \<open>get_event_handler\<close>, \<open>enqueue_event\<close>, \<open>clear_event_queues\<close>,
    \<open>clear_event_queues_only\<close>, \<open>subscribe_to_event\<close>, \<open>unsubscribe_from_event\<close>,
    and the invariant \<open>world_wf\<close>.
  \<^item> \<open>Subscription\<close>: connections: subscribing appends the callable in order and
    returns a connection to the type's pool; unsubscribing with it undoes exactly that
    binding.
  \<^item> \<open>Revocation\<close>: subscribing and unsubscribing with the returned connection is
    unobservable by observing callables: afterwards \<^verbatim>\<open>TriggerEvent\<close> and
    \<^verbatim>\<open>DispatchQueuedEvents()\<close> perform exactly the invocations they perform without
    the subscription (\<open>same_view\<close>).
  \<^item> \<open>Exec\<close>: the operations that invoke callables, over an \<open>invoker\<close> (what running
    a bound callable does): \<open>invoke_slots\<close> (\<^verbatim>\<open>Signal::operator()\<close>),
    \<open>pool_trigger_event\<close>, \<open>trigger_event\<close>, \<open>pool_dispatch_loop\<close> and
    \<open>pool_dispatch_queued_events\<close> (the range-for over the queue, then
    \<^verbatim>\<open>ClearEventQueue\<close>), \<open>dispatch_loop\<close> and \<open>dispatch_queued_events\<close> (the
    range-for over \<^verbatim>\<open>mEventPools\<close>), \<open>dispatch_queued_events_of\<close>, and \<open>bus_call\<close>,
    the public interface as a datatype \<open>action\<close> of calls. The loops stop with
    \<open>IteratorInvalidated\<close> when their vector changed generation under them. The
    variadic \<^verbatim>\<open>DispatchQueuedEvents<Event...>()\<close> (lines 204--208) cannot be
    instantiated with a non-empty pack (a \<^verbatim>\<open>const\<close> member calling the
    non-\<^verbatim>\<open>const\<close> \<^verbatim>\<open>GetEventHandler\<close> and the nonexistent
    \<^verbatim>\<open>EventPool::DispatchEvents\<close>): \<open>dispatch_queued_events_of\<close> gives such a call
    the result \<open>IllFormed\<close> and the empty pack no effect, and no theorem gives it
    another behaviour.
  \<^item> \<open>App\<close>: the closed system. A \<open>program\<close> gives the bus calls each callable makes
    on each event; \<open>run_callable f p\<close> runs callables with at most \<open>f\<close> of them
    nested on the stack (the fuel, the model's only bound); \<open>bus_exec\<close> is one call of
    the application into the bus. More fuel never changes a result that did not run out
    of it (\<open>invoker_le\<close>, \<open>run_callable_le\<close>).
  \<^item> \<open>Closure\<close>: the argument that lifts a property of the bus's callback-free steps
    through re-entrant callbacks: for a preorder \<open>R\<close> that those steps move forward
    in (\<open>bus_order\<close>), every operation of \<open>Exec\<close> and every \<open>bus_exec\<close> at every
    fuel moves forward in \<open>R\<close> (\<open>bus_exec_order\<close>).
  \<^item> \<open>Generations\<close>: the instance for iterator generations (\<open>gen_le\<close>): vector
    generations never decrease, so iterators a callable invalidated stay invalid.
  \<^item> \<open>Lifecycle\<close>: generations together with a registry that only grows by
    appending (\<open>registry_le\<close>), a \<open>bus_order\<close> used by \<open>Clearing\<close>.
  \<^item> \<open>Invariant\<close>: the instance for \<open>world_wf\<close>, and the inductive \<open>reachable\<close>
    (the worlds an application reaches by calls that return): all are well formed.
  \<^item> \<open>Density\<close>: a further instance of \<open>Closure\<close>: with one bus,
    \<^verbatim>\<open>mEventPools\<close> is as long as the id counter and every slot holds a pool, so
    each slot is reached through exactly one event type (the \<^verbatim>\<open>static_cast\<close> of
    \<^verbatim>\<open>GetEventHandler\<close> is type-correct).
  \<^item> \<open>Reentrancy\<close>: the undefined behaviour of \<^verbatim>\<open>DispatchQueuedEvents()\<close> when a
    callable enqueues into the queue being dispatched, or makes the bus create the
    pool of a new event type while \<^verbatim>\<open>mEventPools\<close> is iterated.
  \<^item> \<open>Clearing\<close>: a callable that, during \<^verbatim>\<open>DispatchQueuedEvents()\<close>, calls
    \<^verbatim>\<open>ClearEventQueues()\<close> or \<^verbatim>\<open>ClearEventQueues<Event...>()\<close> naming the
    type being dispatched (\<open>clears_queue\<close>) clears the vector the range-for walks,
    so the dispatch never returns normally, wherever in the callable's body the clear is.
  \<^item> \<open>Isolation\<close>: a testable property of section 8 of the specification for every
    program: \<^verbatim>\<open>ClearEventQueues()\<close> after any enqueues makes the next
    \<^verbatim>\<open>DispatchQueuedEvents()\<close> invoke nothing; and the flush of one pool inside that loop, under callables
    that trigger existing types, changes that pool's queue only (used by \<open>Ranked\<close>).
  \<^item> \<open>Ranked\<close>: termination of re-entrant callables. When every callable bound
    to a pool triggers only registered types of lower-ranked pools (\<open>ranked\<close>),
    \<^verbatim>\<open>TriggerEvent\<close> and \<^verbatim>\<open>DispatchQueuedEvents()\<close> return normally once the
    nesting bound exceeds the ranks, keeping registry, pools and bound callables
    (\<open>signals_kept\<close>); the counterpart of the self-trigger theorem of \<open>Safety\<close>.
  \<^item> \<open>Lazy\<close>: the open question of section 4.3 of the specification settled
    for the code: a selective clear naming a type the bus has never seen registers it with the next id and leaves an empty pool there, although the
    specification's invariant ties the existence of a pool to trigger, enqueue and
    subscribe.
  \<^item> \<open>Safety\<close>: the re-entrancy the code does handle: callables that only trigger
    types whose pools exist keep the registry, \<^verbatim>\<open>mEventPools\<close> and every queue
    (\<open>same_pools\<close>), so \<^verbatim>\<open>DispatchQueuedEvents()\<close> keeps valid iterators; and a
    callable that re-triggers its own type exhausts the stack at every fuel.
  \<^item> \<open>Ordering\<close>: the nested-call order of section 4.2 of the specification as a
    mutually inductive big-step semantics (\<open>trigger_trace\<close>, \<open>slots_trace\<close>,
    \<open>actions_trace\<close>); for callables that trigger existing types the operational
    model returns exactly the traces it derives (soundness by induction on the fuel,
    completeness by rule induction with fuel monotonicity).
  \<^item> \<open>Selective\<close>: in a reachable bus, \<^verbatim>\<open>ClearEventQueues<Event...>()\<close> naming
    every registered type in registration order is equivalent to
    \<^verbatim>\<open>ClearEventQueues()\<close>.
  \<^item> \<open>Refinement\<close>: the specification's per-type view of the bus (\<open>abs_bus\<close>:
    for each event type its bound callables and pending queue) and the abstract
    operations \<open>a_step\<close>; with observing callables every sequence of calls other than
    \<^verbatim>\<open>UnsubscribeFromEvent\<close> and the ill-formed variadic flush refines the abstract
    operations on a well-formed bus.
  \<^item> \<open>Delivery\<close>: the specification's promise as lists of invocations
    (\<open>slot_calls\<close>, \<open>pool_deliveries\<close>, \<open>queued_deliveries\<close>) and the theorems
    that trigger and dispatch deliver exactly them when callables only observe.
  \<^item> The \<^verbatim>\<open>EventPoolBase\<close> interface (lines 24--30) is not a definition of its own:
    \<open>dispatch_loop\<close> and \<open>clear_event_queues\<close> call the pool operations it
    dispatches to directly, which is what its virtual calls resolve to.

  \<^bold>\<open>Bounds.\<close> Type ids are \<open>nat\<close> in the bus model: the C++ counter is an
  \<^verbatim>\<open>int\<close> that overflows only when a type is resolved after \<open>2^31 - 1\<close> ids have
  been drawn, and theory \<open>Counter32\<close> proves the \<open>nat\<close> registry exact up to that
  point at the width of the code. The fuel bounds the nesting of
  callables; every theorem about a returning operation either holds for every fuel
  \<open>f > 0\<close> (callables that do not re-enter need one level), or gives the fuel that
  suffices (above the rank of the pools, theory \<open>Ranked\<close>), or says which results a
  re-entrant run can have.

  \<^bold>\<open>Not modelled.\<close> Memory management (pools are never deleted, the bus has no
  destructor and copying it aliases the pools), overload resolution and SFINAE (both
  construction paths of \<^verbatim>\<open>EnqueueEvent\<close> append one value), type deduction in the
  forwarding overloads, and the contents of \<^verbatim>\<open>signal.hpp\<close> beyond the specification's
  contract. The registry is process-wide in C++ and shared by all buses; the model
  has one bus, whose world holds the registry. \<open>world_wf\<close> still allows the holes
  that ids drawn through other buses would leave in \<^verbatim>\<open>mEventPools\<close>, but the
  density theorems of \<open>Density\<close> and \<open>Selective\<close> are for a program with one bus.
  Threads are not modelled: the specification assumes one thread of control.
\<close>

end
